theory Spec2Isabelle
  imports Main "HOL-Library.Word" "HOL-Library.Multiset" "HOL-Library.List_Lexorder"
begin

section \<open>JavaScript data\<close>

text \<open>
  A JavaScript string is a sequence of UTF-16 code units, a \<open>Uint8Array\<close> a sequence of
  bytes. \<open>js\<close> reads an ASCII literal as a JavaScript string.
\<close>

type_synonym code_unit = "16 word"
type_synonym jsstring = "code_unit list"
type_synonym byte = "8 word"

definition js :: "string \<Rightarrow> jsstring" where
  "js s = map of_char s"

definition dquote :: code_unit where
  "dquote = 0x22"

definition backslash :: code_unit where
  "backslash = 0x5C"

text \<open>
  A \<open>number\<close> is an IEEE-754 double: NaN, an infinity with its sign, or a finite value
  \<open>(-1)^s * m * 2^e\<close> given by sign, significand and binary exponent (the doubles are the
  triples with \<open>m < 2^53\<close> and \<open>-1074 \<le> e \<le> 971\<close>; nothing below depends on these
  bounds). Negative zero is \<open>Finite True 0 e\<close>.
\<close>

datatype jsnum = NaN | Infinity bool | Finite bool nat int

datatype jstype = TUndefined | TBoolean | TNumber | TString | TObject | TFunction | TSymbol | TBigint

text \<open>
  A runtime value as \<open>canonicalizeValue\<close> can receive it (its parameter has type
  \<open>unknown\<close>). An object is the list of its own enumerable string-keyed properties in the
  order of \<open>Object.keys\<close>; an array is the list of its elements (arrays with holes
  are not modelled).
\<close>

datatype jsval =
    JNull
  | JUndefined
  | JBool bool
  | JNum jsnum
  | JStr jsstring
  | JArr "jsval list"
  | JObj "(jsstring \<times> jsval) list"
  | JFunction
  | JSymbol
  | JBigInt

datatype error = NonFiniteNumberError | UnsupportedTypeError jstype | ParseError

text \<open>
  What the code takes from the JavaScript runtime and this development leaves open:
  \<open>String.prototype.normalize('NFC')\<close>, \<open>Number.prototype.toString\<close> on values that are
  not integers of magnitude below \<open>2^53\<close>, and the conversion of a JSON number literal
  that is not such an integer to a double.
\<close>

record platform =
  normalize_NFC :: "jsstring \<Rightarrow> jsstring"
  dtoa :: "jsnum \<Rightarrow> jsstring"
  strtod :: "jsstring \<Rightarrow> jsnum"

section \<open>Numbers\<close>

definition MAX_SAFE_INTEGER :: nat where
  "MAX_SAFE_INTEGER = 9007199254740991"

fun Number_isFinite :: "jsnum \<Rightarrow> bool" where
  "Number_isFinite (Finite s m e) = True"
| "Number_isFinite _ = False"

text \<open>\<open>Object.is(num, -0)\<close>.\<close>

fun is_negative_zero :: "jsnum \<Rightarrow> bool" where
  "is_negative_zero (Finite s m e) = (s \<and> m = 0)"
| "is_negative_zero _ = False"

fun Number_isInteger :: "jsnum \<Rightarrow> bool" where
  "Number_isInteger (Finite s m e) = (0 \<le> e \<or> 2 ^ nat (- e) dvd m)"
| "Number_isInteger _ = False"

text \<open>The integer part of the magnitude, and \<open>Math.abs(num) <= bound\<close> for a natural bound.\<close>

fun magnitude_floor :: "jsnum \<Rightarrow> nat" where
  "magnitude_floor (Finite s m e) = (if 0 \<le> e then m * 2 ^ nat e else m div 2 ^ nat (- e))"
| "magnitude_floor _ = 0"

fun abs_le :: "jsnum \<Rightarrow> nat \<Rightarrow> bool" where
  "abs_le (Finite s m e) b = (if 0 \<le> e then m * 2 ^ nat e \<le> b else m \<le> b * 2 ^ nat (- e))"
| "abs_le NaN b = False"
| "abs_le (Infinity s) b = False"

definition Number_isSafeInteger :: "jsnum \<Rightarrow> bool" where
  "Number_isSafeInteger num = (Number_isInteger num \<and> abs_le num MAX_SAFE_INTEGER)"

fun Math_trunc :: "jsnum \<Rightarrow> jsnum" where
  "Math_trunc (Finite s m e) = Finite s (magnitude_floor (Finite s m e)) 0"
| "Math_trunc x = x"

text \<open>\<open>===\<close> on numbers: NaN equals nothing, the two zeros are equal.\<close>

fun strict_equals :: "jsnum \<Rightarrow> jsnum \<Rightarrow> bool" where
  "strict_equals (Finite s m e) (Finite s' m' e') =
     ((m = 0 \<and> m' = 0) \<or>
      (s = s' \<and> m * 2 ^ nat (e - min e e') = m' * 2 ^ nat (e' - min e e')))"
| "strict_equals (Infinity s) (Infinity s') = (s = s')"
| "strict_equals _ _ = False"

definition digit_char :: "nat \<Rightarrow> code_unit" where
  "digit_char d = of_nat (48 + d)"

fun decimal :: "nat \<Rightarrow> jsstring" where
  "decimal n = (if n < 10 then [digit_char n] else decimal (n div 10) @ [digit_char (n mod 10)])"

declare decimal.simps [simp del]

text \<open>
  \<open>Number.prototype.toString()\<close> (ECMA-262, Number::toString with radix 10) writes the
  shortest decimal digits that read back as the same double. For an integer of magnitude
  at most \<open>2^53 - 1\<close> these are its own decimal digits, written without decimal point
  or exponent, with \<open>-\<close> in front when it is negative; both zeros are written \<open>0\<close>.
  Every other finite value is left to the platform's \<open>dtoa\<close>.
\<close>

fun Number_toString :: "platform \<Rightarrow> jsnum \<Rightarrow> jsstring" where
  "Number_toString P NaN = js ''NaN''"
| "Number_toString P (Infinity s) = (if s then js ''-Infinity'' else js ''Infinity'')"
| "Number_toString P (Finite s m e) =
     (let n = magnitude_floor (Finite s m e) in
      if Number_isInteger (Finite s m e) \<and> n \<le> MAX_SAFE_INTEGER
      then (if s \<and> n \<noteq> 0 then js ''-'' else []) @ decimal n
      else dtoa P (Finite s m e))"

definition canonicalizeNumber :: "platform \<Rightarrow> jsnum \<Rightarrow> error + jsstring" where
  "canonicalizeNumber P num =
     (if \<not> Number_isFinite num then Inl NonFiniteNumberError
      else if is_negative_zero num then Inr (js ''0'')
      else if Number_isInteger num \<and> Number_isSafeInteger num then Inr (Number_toString P num)
      else if strict_equals num (Math_trunc num) \<and> abs_le num MAX_SAFE_INTEGER
        then Inr (Number_toString P (Math_trunc num))
      else Inr (Number_toString P num))"

section \<open>Strings\<close>

definition is_high_surrogate :: "code_unit \<Rightarrow> bool" where
  "is_high_surrogate u = (0xD800 \<le> u \<and> u \<le> 0xDBFF)"

definition is_low_surrogate :: "code_unit \<Rightarrow> bool" where
  "is_low_surrogate u = (0xDC00 \<le> u \<and> u \<le> 0xDFFF)"

text \<open>
  The string iterator behind \<open>for (const char of normalized)\<close>: one string per code point,
  a surrogate pair taken together, a lone surrogate on its own.
\<close>

fun code_points :: "jsstring \<Rightarrow> jsstring list" where
  "code_points [] = []"
| "code_points [u] = [[u]]"
| "code_points (u # v # rest) =
     (if is_high_surrogate u \<and> is_low_surrogate v then [u, v] # code_points rest
      else [u] # code_points (v # rest))"

definition hex_digit :: "nat \<Rightarrow> code_unit" where
  "hex_digit d = (if d < 10 then of_nat (48 + d) else of_nat (87 + d))"

text \<open>\<open>code.toString(16)\<close> and \<open>padStart\<close> with a one-character filler.\<close>

fun toString16 :: "nat \<Rightarrow> jsstring" where
  "toString16 n = (if n < 16 then [hex_digit n] else toString16 (n div 16) @ [hex_digit (n mod 16)])"

declare toString16.simps [simp del]

definition padStart :: "nat \<Rightarrow> code_unit \<Rightarrow> jsstring \<Rightarrow> jsstring" where
  "padStart n c s = replicate (n - length s) c @ s"

text \<open>The body of the loop of \<open>canonicalizeString\<close>: what one \<open>char\<close> adds to \<open>result\<close>.\<close>

fun escape_char :: "jsstring \<Rightarrow> jsstring" where
  "escape_char [] = []"
| "escape_char (code # rest) =
     (let char = code # rest in
      if char = [dquote] then [backslash, dquote]
      else if char = [backslash] then [backslash, backslash]
      else if char = [0x08] then backslash # js ''b''
      else if char = [0x0C] then backslash # js ''f''
      else if char = [0x0A] then backslash # js ''n''
      else if char = [0x0D] then backslash # js ''r''
      else if char = [0x09] then backslash # js ''t''
      else if code < 0x20 then backslash # js ''u'' @ padStart 4 (of_char CHR ''0'') (toString16 (unat code))
      else char)"

definition canonicalizeString :: "platform \<Rightarrow> jsstring \<Rightarrow> jsstring" where
  "canonicalizeString P str =
     (let normalized = normalize_NFC P str in
      foldl (\<lambda>result char. result @ escape_char char) [dquote] (code_points normalized) @ [dquote])"

section \<open>Arrays and objects\<close>

fun join :: "jsstring \<Rightarrow> jsstring list \<Rightarrow> jsstring" where
  "join sep [] = []"
| "join sep [x] = x"
| "join sep (x # y # ys) = x @ sep @ join sep (y # ys)"

text \<open>\<open>Array.prototype.map\<close> with a callback that may throw: the first exception wins.\<close>

fun sequence_result :: "(error + 'a) list \<Rightarrow> error + 'a list" where
  "sequence_result [] = Inr []"
| "sequence_result (Inl e # rs) = Inl e"
| "sequence_result (Inr x # rs) =
     (case sequence_result rs of Inl e \<Rightarrow> Inl e | Inr xs \<Rightarrow> Inr (x # xs))"

definition Object_keys :: "(jsstring \<times> jsval) list \<Rightarrow> jsstring list" where
  "Object_keys obj = map fst obj"

text \<open>\<open>obj[key]\<close>, with \<open>undefined\<close> for a missing property.\<close>

definition js_get :: "(jsstring \<times> jsval) list \<Rightarrow> jsstring \<Rightarrow> jsval" where
  "js_get obj key = (case map_of obj key of None \<Rightarrow> JUndefined | Some v \<Rightarrow> v)"

text \<open>
  The comparator passed to \<open>keys.sort\<close>: the loop over \<open>i\<close>, then the difference of
  the lengths.
\<close>

function compare_from :: "nat \<Rightarrow> nat \<Rightarrow> jsstring \<Rightarrow> jsstring \<Rightarrow> int" where
  "compare_from i minLen a b =
     (if i < minLen then
        (let aCode = a ! i; bCode = b ! i in
         if aCode \<noteq> bCode then int (unat aCode) - int (unat bCode)
         else compare_from (i + 1) minLen a b)
      else int (length a) - int (length b))"
  by pat_completeness auto
termination
  by (relation "measure (\<lambda>(i, minLen, a, b). minLen - i)") auto

declare compare_from.simps [simp del]

definition key_compare :: "jsstring \<Rightarrow> jsstring \<Rightarrow> int" where
  "key_compare a b = compare_from 0 (min (length a) (length b)) a b"

text \<open>
  \<open>Array.prototype.sort\<close> with a comparator. The algorithm is the engine's; insertion
  from the right is used here, and \<open>sort_with_unique\<close> below shows that for
  \<open>key_compare\<close> every algorithm that returns a sorted rearrangement returns this list.
\<close>

fun insert_with :: "('a \<Rightarrow> 'a \<Rightarrow> int) \<Rightarrow> 'a \<Rightarrow> 'a list \<Rightarrow> 'a list" where
  "insert_with cmp x [] = [x]"
| "insert_with cmp x (y # ys) =
     (if cmp x y \<le> 0 then x # y # ys else y # insert_with cmp x ys)"

definition sort_with :: "('a \<Rightarrow> 'a \<Rightarrow> int) \<Rightarrow> 'a list \<Rightarrow> 'a list" where
  "sort_with cmp xs = foldr (insert_with cmp) xs []"

fun typeof :: "jsval \<Rightarrow> jstype" where
  "typeof JNull = TObject"
| "typeof JUndefined = TUndefined"
| "typeof (JBool b) = TBoolean"
| "typeof (JNum n) = TNumber"
| "typeof (JStr s) = TString"
| "typeof (JArr arr) = TObject"
| "typeof (JObj obj) = TObject"
| "typeof JFunction = TFunction"
| "typeof JSymbol = TSymbol"
| "typeof JBigInt = TBigint"

lemma size_js_get: "size (js_get obj key) < Suc (size_list (size_prod (\<lambda>_. 0) size) obj)"
proof (induction obj)
  case Nil
  then show ?case by (simp add: js_get_def)
next
  case (Cons p obj)
  then show ?case by (cases p) (auto simp: js_get_def split: option.splits)
qed

function canonicalizeValue :: "platform \<Rightarrow> jsval \<Rightarrow> error + jsstring"
  and canonicalizeArray :: "platform \<Rightarrow> jsval list \<Rightarrow> error + jsstring"
  and canonicalizeObject :: "platform \<Rightarrow> (jsstring \<times> jsval) list \<Rightarrow> error + jsstring"
where
  "canonicalizeValue P value =
     (if value = JNull then Inr (js ''null'')
      else if value = JUndefined then Inr (js ''null'')
      else (case value of
          JBool b \<Rightarrow> Inr (if b then js ''true'' else js ''false'')
        | JNum num \<Rightarrow> canonicalizeNumber P num
        | JStr str \<Rightarrow> Inr (canonicalizeString P str)
        | JArr arr \<Rightarrow> canonicalizeArray P arr
        | JObj obj \<Rightarrow> canonicalizeObject P obj
        | _ \<Rightarrow> Inl (UnsupportedTypeError (typeof value))))"
| "canonicalizeArray P arr =
     (case sequence_result (map (canonicalizeValue P) arr) of
        Inl e \<Rightarrow> Inl e
      | Inr elements \<Rightarrow> Inr (js ''['' @ join (js '','') elements @ js '']''))"
| "canonicalizeObject P obj =
     (let keys = sort_with key_compare (map (normalize_NFC P) (Object_keys obj)) in
      case sequence_result (map (\<lambda>key.
             let originalKey = find (\<lambda>k. normalize_NFC P k = key) (Object_keys obj);
                 value = js_get obj (case originalKey of None \<Rightarrow> js ''undefined'' | Some k \<Rightarrow> k)
             in case canonicalizeValue P value of
                  Inl e \<Rightarrow> Inl e
                | Inr s \<Rightarrow> Inr (canonicalizeString P key @ js '':'' @ s)) keys) of
        Inl e \<Rightarrow> Inl e
      | Inr pairs \<Rightarrow> Inr (js ''{'' @ join (js '','') pairs @ js ''}''))"
  by pat_completeness auto
termination
proof (relation "measure (\<lambda>x. case x of
          Inl (P, v) \<Rightarrow> 2 * size v + 1
        | Inr (Inl (P, arr)) \<Rightarrow> 2 * size (JArr arr)
        | Inr (Inr (P, obj)) \<Rightarrow> 2 * size (JObj obj))", goal_cases)
  case 1
  then show ?case by simp
next
  case (2 P v arr)
  then show ?case by simp
next
  case (3 P v obj)
  then show ?case by simp
next
  case (4 P arr x)
  then have "size x \<le> size_list size arr" by (simp add: size_list_estimation')
  then show ?case by simp
next
  case (5 P obj keys key originalKey v)
  have "size (js_get obj k) \<le> size_list (size_prod (\<lambda>_. 0) size) obj" for k
    using size_js_get [of obj k] by simp
  with 5 show ?case
    by (simp add: le_imp_less_Suc)
qed

declare canonicalizeValue.simps [simp del]
declare canonicalizeArray.simps [simp del]
declare canonicalizeObject.simps [simp del]

section \<open>Entry points\<close>

text \<open>
  \<open>new TextEncoder().encode(str)\<close> (WHATWG Encoding): the string is read as scalar
  values, a surrogate that is not part of a pair becoming U+FFFD, and each scalar value
  is written in UTF-8.
\<close>

definition surrogate_or :: "code_unit \<Rightarrow> nat" where
  "surrogate_or u = (if is_high_surrogate u \<or> is_low_surrogate u then 0xFFFD else unat u)"

fun scalar_values :: "jsstring \<Rightarrow> nat list" where
  "scalar_values [] = []"
| "scalar_values [u] = [surrogate_or u]"
| "scalar_values (u # v # rest) =
     (if is_high_surrogate u \<and> is_low_surrogate v
      then (0x10000 + (unat u - 0xD800) * 0x400 + (unat v - 0xDC00)) # scalar_values rest
      else surrogate_or u # scalar_values (v # rest))"

definition utf8_bytes :: "nat \<Rightarrow> byte list" where
  "utf8_bytes cp =
     (if cp < 0x80 then [of_nat cp]
      else if cp < 0x800 then [of_nat (0xC0 + cp div 0x40), of_nat (0x80 + cp mod 0x40)]
      else if cp < 0x10000 then
        [of_nat (0xE0 + cp div 0x1000), of_nat (0x80 + cp div 0x40 mod 0x40),
         of_nat (0x80 + cp mod 0x40)]
      else
        [of_nat (0xF0 + cp div 0x40000), of_nat (0x80 + cp div 0x1000 mod 0x40),
         of_nat (0x80 + cp div 0x40 mod 0x40), of_nat (0x80 + cp mod 0x40)])"

definition TextEncoder_encode :: "jsstring \<Rightarrow> byte list" where
  "TextEncoder_encode str = concat (map utf8_bytes (scalar_values str))"

definition canonicalizeToString :: "platform \<Rightarrow> jsval \<Rightarrow> error + jsstring" where
  "canonicalizeToString P value = canonicalizeValue P value"

definition canonicalize :: "platform \<Rightarrow> jsval \<Rightarrow> error + byte list" where
  "canonicalize P value =
     (case canonicalizeToString P value of
        Inl e \<Rightarrow> Inl e
      | Inr str \<Rightarrow> Inr (TextEncoder_encode str))"

text \<open>
  \<open>new TextDecoder().decode(jsonBytes)\<close> (WHATWG Encoding, UTF-8 decoder, not fatal,
  the byte order mark removed): the decoder's state is the code point read so far, the
  number of continuation bytes still due and the bounds of the next one; an ill-formed
  sequence gives U+FFFD and the byte that broke it is read again as a first byte.
\<close>

type_synonym utf8_state = "nat \<times> nat \<times> nat \<times> nat"

definition utf8_initial :: utf8_state where
  "utf8_initial = (0, 0, 0x80, 0xBF)"

definition utf8_first :: "nat \<Rightarrow> nat list \<times> utf8_state" where
  "utf8_first b =
     (if b \<le> 0x7F then ([b], utf8_initial)
      else if 0xC2 \<le> b \<and> b \<le> 0xDF then ([], (b mod 0x20, 1, 0x80, 0xBF))
      else if 0xE0 \<le> b \<and> b \<le> 0xEF then
        ([], (b mod 0x10, 2, if b = 0xE0 then 0xA0 else 0x80, if b = 0xED then 0x9F else 0xBF))
      else if 0xF0 \<le> b \<and> b \<le> 0xF4 then
        ([], (b mod 0x08, 3, if b = 0xF0 then 0x90 else 0x80, if b = 0xF4 then 0x8F else 0xBF))
      else ([0xFFFD], utf8_initial))"

fun utf8_decode :: "utf8_state \<Rightarrow> byte list \<Rightarrow> nat list" where
  "utf8_decode (cp, needed, lower, upper) [] = (if needed \<noteq> 0 then [0xFFFD] else [])"
| "utf8_decode (cp, needed, lower, upper) (byte # bytes) =
     (let b = unat byte in
      if needed = 0 then
        (case utf8_first b of (out, st) \<Rightarrow> out @ utf8_decode st bytes)
      else if b < lower \<or> upper < b then
        (case utf8_first b of (out, st) \<Rightarrow> 0xFFFD # out @ utf8_decode st bytes)
      else
        (let cp' = cp * 0x40 + b mod 0x40 in
         if needed = 1 then cp' # utf8_decode utf8_initial bytes
         else utf8_decode (cp', needed - 1, 0x80, 0xBF) bytes))"

definition utf16_units :: "nat \<Rightarrow> jsstring" where
  "utf16_units cp =
     (if cp < 0x10000 then [of_nat cp]
      else [of_nat (0xD800 + (cp - 0x10000) div 0x400), of_nat (0xDC00 + (cp - 0x10000) mod 0x400)])"

definition strip_bom :: "nat list \<Rightarrow> nat list" where
  "strip_bom cps = (case cps of [] \<Rightarrow> [] | c # rest \<Rightarrow> if c = 0xFEFF then rest else cps)"

definition TextDecoder_decode :: "byte list \<Rightarrow> jsstring" where
  "TextDecoder_decode bytes = concat (map utf16_units (strip_bom (utf8_decode utf8_initial bytes)))"

section \<open>JSON.parse\<close>

text \<open>
  \<open>JSON.parse(str)\<close> (ECMA-262, the JSON grammar): the text is cut into tokens, and the
  tokens are read by a pushdown automaton whose stack holds the arrays and objects that
  are still open. Every failure is the \<open>SyntaxError\<close> of the runtime.
\<close>

datatype token =
  LBrace | RBrace | LBracket | RBracket | Colon | Comma
  | TStr jsstring | TNum jsnum | TTrue | TFalse | TNull

definition is_whitespace :: "code_unit \<Rightarrow> bool" where
  "is_whitespace c = (c = 0x09 \<or> c = 0x0A \<or> c = 0x0D \<or> c = 0x20)"

definition is_digit :: "code_unit \<Rightarrow> bool" where
  "is_digit c = (0x30 \<le> c \<and> c \<le> 0x39)"

definition hex_value :: "code_unit \<Rightarrow> nat option" where
  "hex_value c =
     (if 0x30 \<le> c \<and> c \<le> 0x39 then Some (unat c - 0x30)
      else if 0x41 \<le> c \<and> c \<le> 0x46 then Some (unat c - 0x37)
      else if 0x61 \<le> c \<and> c \<le> 0x66 then Some (unat c - 0x57)
      else None)"

text \<open>The character after a backslash: \<open>" \ / b f n r t\<close>.\<close>

definition simple_escape :: "code_unit \<Rightarrow> code_unit option" where
  "simple_escape e =
     (if e = dquote then Some dquote
      else if e = backslash then Some backslash
      else if e = 0x2F then Some 0x2F
      else if e = 0x62 then Some 0x08
      else if e = 0x66 then Some 0x0C
      else if e = 0x6E then Some 0x0A
      else if e = 0x72 then Some 0x0D
      else if e = 0x74 then Some 0x09
      else None)"

definition prepend :: "code_unit \<Rightarrow> (jsstring \<times> jsstring) option \<Rightarrow> (jsstring \<times> jsstring) option" where
  "prepend u r = map_option (\<lambda>(str, rest). (u # str, rest)) r"

text \<open>A string token, read from behind its opening quote: its value and the text left.\<close>

fun lex_string :: "jsstring \<Rightarrow> (jsstring \<times> jsstring) option" where
  "lex_string [] = None"
| "lex_string (c # cs) =
     (if c = dquote then Some ([], cs)
      else if c = backslash then
        (case cs of
           [] \<Rightarrow> None
         | e # cs' \<Rightarrow>
             if e = 0x75 then
               (case cs' of
                  h1 # h2 # h3 # h4 # cs'' \<Rightarrow>
                    (case (hex_value h1, hex_value h2, hex_value h3, hex_value h4) of
                       (Some a, Some b, Some c, Some d) \<Rightarrow>
                         prepend (of_nat (((a * 16 + b) * 16 + c) * 16 + d)) (lex_string cs'')
                     | _ \<Rightarrow> None)
                | _ \<Rightarrow> None)
             else (case simple_escape e of
                     None \<Rightarrow> None
                   | Some u \<Rightarrow> prepend u (lex_string cs')))
      else if c < 0x20 then None
      else prepend c (lex_string cs))"

definition digits_value :: "jsstring \<Rightarrow> nat" where
  "digits_value ds = foldl (\<lambda>n c. 10 * n + (unat c - 0x30)) 0 ds"

definition lex_fraction :: "jsstring \<Rightarrow> (bool \<times> jsstring) option" where
  "lex_fraction r =
     (case r of
        [] \<Rightarrow> Some (False, r)
      | c # r' \<Rightarrow>
          if c = 0x2E then
            (if takeWhile is_digit r' = [] then None else Some (True, dropWhile is_digit r'))
          else Some (False, r))"

definition lex_exponent :: "jsstring \<Rightarrow> (bool \<times> jsstring) option" where
  "lex_exponent r =
     (case r of
        [] \<Rightarrow> Some (False, r)
      | c # r' \<Rightarrow>
          if c = 0x65 \<or> c = 0x45 then
            (let r'' = (case r' of [] \<Rightarrow> [] | sg # t \<Rightarrow> if sg = 0x2B \<or> sg = 0x2D then t else r')
             in if takeWhile is_digit r'' = [] then None else Some (True, dropWhile is_digit r''))
          else Some (False, r))"

text \<open>
  A number token: \<open>-? (0 | [1-9][0-9]*) (. [0-9]+)? ([eE] [+-]? [0-9]+)?\<close>. A literal with
  neither fraction nor exponent and at most \<open>2^53\<close> in magnitude is that integer, exactly;
  every other literal is rounded to a double by the platform's \<open>strtod\<close>.
\<close>

definition lex_number :: "platform \<Rightarrow> jsstring \<Rightarrow> (jsnum \<times> jsstring) option" where
  "lex_number P cs =
     (let neg = (case cs of [] \<Rightarrow> False | c # r \<Rightarrow> c = 0x2D);
          cs1 = (if neg then tl cs else cs);
          ints = takeWhile is_digit cs1
      in if ints = [] \<or> (hd ints = 0x30 \<and> 1 < length ints) then None
         else (case lex_fraction (dropWhile is_digit cs1) of
                 None \<Rightarrow> None
               | Some (has_frac, r2) \<Rightarrow>
                   (case lex_exponent r2 of
                      None \<Rightarrow> None
                    | Some (has_exp, r3) \<Rightarrow>
                        Some (if \<not> has_frac \<and> \<not> has_exp \<and> digits_value ints \<le> 2 ^ 53
                              then Finite neg (digits_value ints) 0
                              else strtod P (take (length cs - length r3) cs), r3))))"

lemma lex_string_shorter: "lex_string cs = Some (str, rest) \<Longrightarrow> length rest < length cs"
proof (induction cs arbitrary: str rest rule: length_induct)
  case (1 cs)
  have IH: "\<And>ys s r. length ys < length cs \<Longrightarrow> lex_string ys = Some (s, r) \<Longrightarrow> length r < length ys"
    using 1(1) by blast
  have P: "\<And>u ys. prepend u (lex_string ys) = Some (str, rest) \<Longrightarrow> length ys < length cs \<Longrightarrow>
      length rest < length ys"
    using IH by (auto simp: prepend_def)
  from 1(2) show ?case
    apply (cases cs)
     apply simp
    apply (simp split: if_splits list.splits option.splits prod.splits)
    using P apply fastforce+
    done
qed

lemma lex_fraction_shorter: "lex_fraction r = Some (b, r') \<Longrightarrow> length r' \<le> length r"
  using length_dropWhile_le [of is_digit "tl r"]
  by (auto simp: lex_fraction_def split: list.splits if_splits)

lemma lex_exponent_shorter: "lex_exponent r = Some (b, r') \<Longrightarrow> length r' \<le> length r"
proof (cases r)
  case Nil
  then show "lex_exponent r = Some (b, r') \<Longrightarrow> length r' \<le> length r"
    by (simp add: lex_exponent_def)
next
  case (Cons c t)
  assume a: "lex_exponent r = Some (b, r')"
  show "length r' \<le> length r"
  proof (cases t)
    case Nil
    with a Cons show ?thesis
      by (auto simp: lex_exponent_def split: if_splits)
  next
    case (Cons sg u)
    with a \<open>r = c # t\<close> length_dropWhile_le [of is_digit t] length_dropWhile_le [of is_digit u]
    show ?thesis
      by (auto simp: lex_exponent_def Let_def split: if_splits)
  qed
qed

lemma lex_number_shorter:
  assumes "lex_number P cs = Some (num, rest)"
  shows "length rest < length cs"
proof -
  define cs1 where "cs1 = (if (case cs of [] \<Rightarrow> False | c # r \<Rightarrow> c = 0x2D) then tl cs else cs)"
  have l1: "length cs1 \<le> length cs"
    by (simp add: cs1_def)
  from assms have ne: "takeWhile is_digit cs1 \<noteq> []"
    by (auto simp: lex_number_def Let_def cs1_def split: if_splits)
  from assms obtain b2 r2 b3 where
    f: "lex_fraction (dropWhile is_digit cs1) = Some (b2, r2)" and
    e: "lex_exponent r2 = Some (b3, rest)"
    by (auto simp: lex_number_def Let_def cs1_def split: if_splits option.splits)
  have "length (takeWhile is_digit cs1) + length (dropWhile is_digit cs1) = length cs1"
    by (metis length_append takeWhile_dropWhile_id)
  with ne have "length (dropWhile is_digit cs1) < length cs1"
    by (cases "takeWhile is_digit cs1") auto
  with lex_fraction_shorter [OF f] lex_exponent_shorter [OF e] l1 show ?thesis
    by simp
qed

function tokenize :: "platform \<Rightarrow> jsstring \<Rightarrow> token list option" where
  "tokenize P [] = Some []"
| "tokenize P (c # cs) =
     (if is_whitespace c then tokenize P cs
      else if c = 0x7B then map_option (Cons LBrace) (tokenize P cs)
      else if c = 0x7D then map_option (Cons RBrace) (tokenize P cs)
      else if c = 0x5B then map_option (Cons LBracket) (tokenize P cs)
      else if c = 0x5D then map_option (Cons RBracket) (tokenize P cs)
      else if c = 0x3A then map_option (Cons Colon) (tokenize P cs)
      else if c = 0x2C then map_option (Cons Comma) (tokenize P cs)
      else if c = dquote then
        (case lex_string cs of
           None \<Rightarrow> None
         | Some (str, rest) \<Rightarrow> map_option (Cons (TStr str)) (tokenize P rest))
      else if c = 0x2D \<or> is_digit c then
        (case lex_number P (c # cs) of
           None \<Rightarrow> None
         | Some (num, rest) \<Rightarrow> map_option (Cons (TNum num)) (tokenize P rest))
      else if take 4 (c # cs) = js ''true'' then map_option (Cons TTrue) (tokenize P (drop 3 cs))
      else if take 5 (c # cs) = js ''false'' then map_option (Cons TFalse) (tokenize P (drop 4 cs))
      else if take 4 (c # cs) = js ''null'' then map_option (Cons TNull) (tokenize P (drop 3 cs))
      else None)"
  by pat_completeness auto
termination
proof (relation "measure (\<lambda>(P, cs). length cs)", goal_cases)
  case (9 P c cs x2 x y)
  then show ?case using lex_string_shorter [of cs x y] by simp
next
  case (10 P c cs x2 x y)
  then show ?case using lex_number_shorter [of P "c # cs" x y] by simp
qed auto

declare tokenize.simps(2) [simp del]

text \<open>
  An object under construction is the list of its properties in the order of creation;
  \<open>define_property\<close> is \<open>CreateDataProperty\<close>: a key met again keeps its place and takes
  the new value. \<open>own_property_order\<close> is the order of \<open>Object.keys\<close>: the array indices
  (canonical numeric strings below \<open>2^32 - 1\<close>) in ascending order, then every other key
  in the order of creation.
\<close>

fun define_property :: "jsstring \<Rightarrow> jsval \<Rightarrow> (jsstring \<times> jsval) list \<Rightarrow> (jsstring \<times> jsval) list" where
  "define_property k v [] = [(k, v)]"
| "define_property k v (p # ps) = (if fst p = k then (k, v) # ps else p # define_property k v ps)"

definition is_array_index :: "jsstring \<Rightarrow> bool" where
  "is_array_index k =
     (k \<noteq> [] \<and> list_all is_digit k \<and> (hd k \<noteq> 0x30 \<or> length k = 1) \<and> digits_value k < 2 ^ 32 - 1)"

definition own_property_order :: "(jsstring \<times> jsval) list \<Rightarrow> (jsstring \<times> jsval) list" where
  "own_property_order ps =
     sort_key (\<lambda>p. digits_value (fst p)) (filter (\<lambda>p. is_array_index (fst p)) ps)
     @ filter (\<lambda>p. \<not> is_array_index (fst p)) ps"

datatype frame =
    InArray "jsval list"
  | InObject "(jsstring \<times> jsval) list"
  | InMember "(jsstring \<times> jsval) list" jsstring

datatype expect = Value | ValueOrEnd | KeyOrEnd | Key | ColonNext | CommaOrEnd | Finished jsval

type_synonym parser_state = "expect \<times> frame list"

text \<open>A value is complete: it is the result, the next element, or the value of the open member.\<close>

fun deliver :: "jsval \<Rightarrow> frame list \<Rightarrow> parser_state option" where
  "deliver v [] = Some (Finished v, [])"
| "deliver v (InArray els # st) = Some (CommaOrEnd, InArray (v # els) # st)"
| "deliver v (InMember ms k # st) = Some (CommaOrEnd, InObject (define_property k v ms) # st)"
| "deliver v (InObject ms # st) = None"

definition scalar_token :: "token \<Rightarrow> jsval option" where
  "scalar_token t =
     (case t of
        TStr s \<Rightarrow> Some (JStr s)
      | TNum n \<Rightarrow> Some (JNum n)
      | TTrue \<Rightarrow> Some (JBool True)
      | TFalse \<Rightarrow> Some (JBool False)
      | TNull \<Rightarrow> Some JNull
      | _ \<Rightarrow> None)"

definition begin_value :: "token \<Rightarrow> frame list \<Rightarrow> parser_state option" where
  "begin_value t st =
     (case t of
        LBracket \<Rightarrow> Some (ValueOrEnd, InArray [] # st)
      | LBrace \<Rightarrow> Some (KeyOrEnd, InObject [] # st)
      | _ \<Rightarrow> (case scalar_token t of None \<Rightarrow> None | Some v \<Rightarrow> deliver v st))"

definition close_array :: "frame list \<Rightarrow> parser_state option" where
  "close_array st =
     (case st of InArray els # st' \<Rightarrow> deliver (JArr (rev els)) st' | _ \<Rightarrow> None)"

definition close_object :: "frame list \<Rightarrow> parser_state option" where
  "close_object st =
     (case st of InObject ms # st' \<Rightarrow> deliver (JObj (own_property_order ms)) st' | _ \<Rightarrow> None)"

definition begin_member :: "token \<Rightarrow> frame list \<Rightarrow> parser_state option" where
  "begin_member t st =
     (case t of
        TStr k \<Rightarrow> (case st of InObject ms # st' \<Rightarrow> Some (ColonNext, InMember ms k # st') | _ \<Rightarrow> None)
      | _ \<Rightarrow> None)"

definition step :: "token \<Rightarrow> parser_state \<Rightarrow> parser_state option" where
  "step t s =
     (case s of (e, st) \<Rightarrow>
        (case e of
           Value \<Rightarrow> begin_value t st
         | ValueOrEnd \<Rightarrow> (if t = RBracket then close_array st else begin_value t st)
         | KeyOrEnd \<Rightarrow> (if t = RBrace then close_object st else begin_member t st)
         | Key \<Rightarrow> begin_member t st
         | ColonNext \<Rightarrow> (if t = Colon then Some (Value, st) else None)
         | CommaOrEnd \<Rightarrow>
             (case st of
                InArray els # st' \<Rightarrow>
                  (if t = Comma then Some (Value, st)
                   else if t = RBracket then close_array st else None)
              | InObject ms # st' \<Rightarrow>
                  (if t = Comma then Some (Key, st)
                   else if t = RBrace then close_object st else None)
              | _ \<Rightarrow> None)
         | Finished v \<Rightarrow> None))"

fun parse_tokens :: "token list \<Rightarrow> parser_state \<Rightarrow> parser_state option" where
  "parse_tokens [] s = Some s"
| "parse_tokens (t # ts) s = (case step t s of None \<Rightarrow> None | Some s' \<Rightarrow> parse_tokens ts s')"

definition JSON_parse :: "platform \<Rightarrow> jsstring \<Rightarrow> error + jsval" where
  "JSON_parse P text =
     (case tokenize P text of
        None \<Rightarrow> Inl ParseError
      | Some ts \<Rightarrow>
          (case parse_tokens ts (Value, []) of
             Some (Finished v, st) \<Rightarrow> Inr v
           | _ \<Rightarrow> Inl ParseError))"

definition canonicalizeBytes :: "platform \<Rightarrow> byte list \<Rightarrow> error + byte list" where
  "canonicalizeBytes P jsonBytes =
     (let str = TextDecoder_decode jsonBytes in
      case JSON_parse P str of
        Inl e \<Rightarrow> Inl e
      | Inr parsed \<Rightarrow> canonicalize P parsed)"

text \<open>The loop of \<open>validateIntegrity\<close> over \<open>i\<close>.\<close>

function bytes_equal_from :: "nat \<Rightarrow> byte list \<Rightarrow> byte list \<Rightarrow> bool" where
  "bytes_equal_from i jsonBytes canonical =
     (if i < length jsonBytes then
        (if jsonBytes ! i \<noteq> canonical ! i then False
         else bytes_equal_from (i + 1) jsonBytes canonical)
      else True)"
  by pat_completeness auto
termination
  by (relation "measure (\<lambda>(i, jsonBytes, canonical). length jsonBytes - i)") auto

declare bytes_equal_from.simps [simp del]

text \<open>\<open>try { ... } catch { return false; }\<close>: every exception of the body is \<open>Inl\<close>.\<close>

definition validateIntegrity :: "platform \<Rightarrow> byte list \<Rightarrow> bool" where
  "validateIntegrity P jsonBytes =
     (case canonicalizeBytes P jsonBytes of
        Inl e \<Rightarrow> False
      | Inr canonical \<Rightarrow>
          if length jsonBytes \<noteq> length canonical then False
          else bytes_equal_from 0 jsonBytes canonical)"

text \<open>
  A platform for concrete inputs. Its normalisation replaces the three characters whose
  canonical decomposition is a single other character (OHM SIGN U+2126 by U+03A9, KELVIN
  SIGN U+212A by U+004B, ANGSTROM SIGN U+212B by U+00C5) and leaves every other code unit
  as it is, which is what NFC does to a string whose other characters are ASCII. Its
  number conversions are never reached on integers below \<open>2^53\<close>.
\<close>

definition nfc_singletons :: "jsstring \<Rightarrow> jsstring" where
  "nfc_singletons str =
     map (\<lambda>u. if u = 0x2126 then 0x03A9 else if u = 0x212A then 0x004B
               else if u = 0x212B then 0x00C5 else u) str"

definition ascii_platform :: platform where
  "ascii_platform = \<lparr> normalize_NFC = nfc_singletons, dtoa = (\<lambda>num. []), strtod = (\<lambda>str. NaN) \<rparr>"

section \<open>Notions of the specification\<close>

text \<open>The bytes of an ASCII text.\<close>

definition ascii_bytes :: "string \<Rightarrow> byte list" where
  "ascii_bytes s = map of_char s"

text \<open>
  The six cases of the specification's value model: Null, Boolean, Number, String,
  Array, Object.
\<close>

fun in_value_model :: "jsval \<Rightarrow> bool" where
  "in_value_model JNull = True"
| "in_value_model (JBool b) = True"
| "in_value_model (JNum n) = True"
| "in_value_model (JStr s) = True"
| "in_value_model (JArr arr) = True"
| "in_value_model (JObj obj) = True"
| "in_value_model v = False"

text \<open>
  An integer as the specification renders it: its decimal digits, no decimal point, no
  exponent, a minus sign in front of a negative one.
\<close>

definition integer_text :: "bool \<Rightarrow> nat \<Rightarrow> jsstring" where
  "integer_text negative n = (if negative \<and> n \<noteq> 0 then js ''-'' else []) @ decimal n"

text \<open>
  The escaping rule of the specification, one code unit at a time: the two-character
  escapes of \<open>"\<close>, \<open>\\<close>, backspace, form feed, newline, carriage return and tab;
  \<open>\u00XX\<close> with two lower-case hexadecimal digits for every other code unit below
  U+0020; the code unit itself for everything else.
\<close>

definition spec_escape :: "code_unit \<Rightarrow> jsstring" where
  "spec_escape u =
     (if u = dquote then [backslash, dquote]
      else if u = backslash then [backslash, backslash]
      else if u = 0x08 then backslash # js ''b''
      else if u = 0x0C then backslash # js ''f''
      else if u = 0x0A then backslash # js ''n''
      else if u = 0x0D then backslash # js ''r''
      else if u = 0x09 then backslash # js ''t''
      else if u < 0x20 then backslash # js ''u00'' @ [hex_digit (unat u div 16), hex_digit (unat u mod 16)]
      else [u])"

text \<open>
  The key order of the specification: strict ordinal comparison of UTF-16 code units,
  code unit by code unit by numeric value, a string that is a prefix of another first.
\<close>

fun ordinal_le :: "jsstring \<Rightarrow> jsstring \<Rightarrow> bool" where
  "ordinal_le [] b = True"
| "ordinal_le (x # a) [] = False"
| "ordinal_le (x # a) (y # b) = (x < y \<or> (x = y \<and> ordinal_le a b))"

text \<open>
  What the object canonicalizer emits for a key, in the words of the specification:
  the value is the one of the first original key, in the order of enumeration, whose NFC
  normalisation is the key, and the member is the canonical string of the key, a colon
  and the canonical text of that value.
\<close>

definition first_match :: "platform \<Rightarrow> (jsstring \<times> jsval) list \<Rightarrow> jsstring \<Rightarrow> jsval" where
  "first_match P obj key =
     (case filter (\<lambda>p. normalize_NFC P (fst p) = key) obj of [] \<Rightarrow> JUndefined | p # ps \<Rightarrow> snd p)"

definition member_of :: "platform \<Rightarrow> (jsstring \<times> jsval) list \<Rightarrow> jsstring \<Rightarrow> error + jsstring" where
  "member_of P obj key =
     (case canonicalizeValue P (first_match P obj key) of
        Inl e \<Rightarrow> Inl e
      | Inr text \<Rightarrow> Inr (canonicalizeString P key @ js '':'' @ text))"

section \<open>Properties of the type dispatch\<close>

lemma canonicalizeValue_simps [simp]:
  "canonicalizeValue P JNull = Inr (js ''null'')"
  "canonicalizeValue P JUndefined = Inr (js ''null'')"
  "canonicalizeValue P (JBool b) = Inr (if b then js ''true'' else js ''false'')"
  "canonicalizeValue P (JNum num) = canonicalizeNumber P num"
  "canonicalizeValue P (JStr str) = Inr (canonicalizeString P str)"
  "canonicalizeValue P (JArr arr) = canonicalizeArray P arr"
  "canonicalizeValue P (JObj obj) = canonicalizeObject P obj"
  "canonicalizeValue P JFunction = Inl (UnsupportedTypeError TFunction)"
  "canonicalizeValue P JSymbol = Inl (UnsupportedTypeError TSymbol)"
  "canonicalizeValue P JBigInt = Inl (UnsupportedTypeError TBigint)"
  by (simp_all add: canonicalizeValue.simps)

lemma encode_null: "TextEncoder_encode (js ''null'') = ascii_bytes ''null''"
  by (simp add: TextEncoder_encode_def js_def ascii_bytes_def surrogate_or_def
      is_high_surrogate_def is_low_surrogate_def utf8_bytes_def)

text \<open>
  C10. \<open>undefined\<close> is not rejected: \<open>canonicalizeToString(undefined)\<close> is the text
  \<open>null\<close> and \<open>canonicalize(undefined)\<close> its UTF-8 bytes, the same output as for
  \<open>null\<close>.
\<close>

theorem undefined_renders_null:
  "canonicalizeToString P JUndefined = Inr (js ''null'') \<and>
   canonicalize P JUndefined = Inr (ascii_bytes ''null'') \<and>
   canonicalizeToString P JUndefined = canonicalizeToString P JNull \<and>
   canonicalize P JUndefined = canonicalize P JNull"
  by (simp add: canonicalizeToString_def canonicalize_def encode_null)

text \<open>
  C3, as stated, fails: \<open>undefined\<close> is none of the six cases of the value model, and
  \<open>canonicalize\<close> returns the bytes of \<open>null\<close> for it.
\<close>

theorem unsupported_counterexample:
  "\<not> in_value_model JUndefined \<and>
   canonicalize ascii_platform JUndefined = Inr (ascii_bytes ''null'')"
  by (simp add: canonicalizeToString_def canonicalize_def encode_null)

text \<open>
  C3, amended: every input outside the six cases of the value model other than
  \<open>undefined\<close> (a function, a symbol, a bigint) makes \<open>canonicalize\<close> and
  \<open>canonicalizeToString\<close> fail with the unsupported-type error, which names the
  \<open>typeof\<close> of the input.
\<close>

theorem unsupported_type_fails:
  "\<not> in_value_model v \<Longrightarrow> v \<noteq> JUndefined \<Longrightarrow>
   canonicalizeToString P v = Inl (UnsupportedTypeError (typeof v)) \<and>
   canonicalize P v = Inl (UnsupportedTypeError (typeof v)) \<and>
   typeof v \<in> {TFunction, TSymbol, TBigint}"
  by (cases v) (simp_all add: canonicalizeToString_def canonicalize_def)

theorem unsupported_type_fails_witness:
  "\<not> in_value_model JFunction \<and> JFunction \<noteq> JUndefined \<and>
   canonicalize ascii_platform JFunction = Inl (UnsupportedTypeError TFunction)"
  using unsupported_type_fails [of JFunction ascii_platform] by simp

section \<open>Properties of numbers\<close>

lemma sequence_result_Inl:
  "Inl e \<in> set rs \<Longrightarrow> \<exists>e'. sequence_result rs = Inl e'"
proof (induction rs)
  case Nil
  then show ?case by simp
next
  case (Cons r rs)
  then show ?case
    by (cases r) (auto split: sum.splits)
qed

text \<open>
  C6. A number that is NaN or an infinity makes canonicalization fail with the
  non-finite-number error, from \<open>canonicalizeNumber\<close> up to \<open>canonicalize\<close>; an array
  that holds such a number produces no output either.
\<close>

theorem non_finite_fails:
  "\<not> Number_isFinite num \<Longrightarrow>
   canonicalizeNumber P num = Inl NonFiniteNumberError \<and>
   canonicalizeToString P (JNum num) = Inl NonFiniteNumberError \<and>
   canonicalize P (JNum num) = Inl NonFiniteNumberError \<and>
   (JNum num \<in> set arr \<longrightarrow> (\<exists>e. canonicalize P (JArr arr) = Inl e))"
proof -
  assume nf: "\<not> Number_isFinite num"
  then have n: "canonicalizeNumber P num = Inl NonFiniteNumberError"
    by (simp add: canonicalizeNumber_def)
  have "\<exists>e. canonicalize P (JArr arr) = Inl e" if "JNum num \<in> set arr"
  proof -
    from that n have "Inl NonFiniteNumberError \<in> set (map (canonicalizeValue P) arr)"
      by (force simp: image_iff)
    from sequence_result_Inl [OF this] show ?thesis
      by (auto simp: canonicalize_def canonicalizeToString_def canonicalizeArray.simps)
  qed
  with n show ?thesis
    by (simp add: canonicalizeToString_def canonicalize_def)
qed

theorem non_finite_fails_witness:
  "\<not> Number_isFinite NaN \<and> \<not> Number_isFinite (Infinity True) \<and> \<not> Number_isFinite (Infinity False) \<and>
   canonicalize ascii_platform (JNum NaN) = Inl NonFiniteNumberError \<and>
   canonicalize ascii_platform (JNum (Infinity True)) = Inl NonFiniteNumberError \<and>
   canonicalize ascii_platform (JNum (Infinity False)) = Inl NonFiniteNumberError \<and>
   (\<exists>e. canonicalize ascii_platform (JArr [JNull, JNum NaN]) = Inl e)"
  using non_finite_fails [of NaN ascii_platform "[JNull, JNum NaN]"]
    non_finite_fails [of "Infinity True" ascii_platform "[]"]
    non_finite_fails [of "Infinity False" ascii_platform "[]"]
  by simp

lemma digit_char_is_digit: "d < 10 \<Longrightarrow> is_digit (digit_char d)"
proof -
  assume "d < 10"
  then have "d \<in> {0, 1, 2, 3, 4, 5, 6, 7, 8, 9}" by auto
  then show ?thesis
    by (auto simp: is_digit_def digit_char_def)
qed

lemma decimal_digits: "list_all is_digit (decimal n)"
proof (induction n rule: decimal.induct)
  case (1 n)
  show ?case
  proof (cases "n < 10")
    case True
    then show ?thesis by (simp add: decimal.simps [of n] digit_char_is_digit)
  next
    case False
    with 1 show ?thesis
      by (simp add: decimal.simps [of n] digit_char_is_digit)
  qed
qed

lemma magnitude_floor_le:
  "abs_le (Finite s m e) b \<Longrightarrow> magnitude_floor (Finite s m e) \<le> b"
proof (cases "0 \<le> e")
  case True
  assume "abs_le (Finite s m e) b"
  with True show ?thesis by simp
next
  case False
  assume "abs_le (Finite s m e) b"
  with False have "m \<le> b * 2 ^ nat (- e)" by simp
  then have "m div 2 ^ nat (- e) \<le> b"
    by (metis div_le_mono nonzero_mult_div_cancel_right power_not_zero zero_neq_numeral)
  with False show ?thesis by simp
qed

lemma decimal_small: "n < 10 \<Longrightarrow> decimal n = [digit_char n]"
  by (simp add: decimal.simps [of n])

lemma decimal_step: "\<not> n < 10 \<Longrightarrow> decimal n = decimal (n div 10) @ [digit_char (n mod 10)]"
  by (simp add: decimal.simps [of n])

lemma Number_toString_integer:
  assumes "Number_isInteger (Finite s m e)" and "magnitude_floor (Finite s m e) \<le> MAX_SAFE_INTEGER"
  shows "Number_toString P (Finite s m e) = integer_text s (magnitude_floor (Finite s m e))"
  using assms
  by (simp add: integer_text_def Let_def del: magnitude_floor.simps Number_isInteger.simps)

lemma safe_integer_text:
  assumes "Number_isInteger (Finite s m e)" and "abs_le (Finite s m e) MAX_SAFE_INTEGER"
  shows "canonicalizeNumber P (Finite s m e) = Inr (integer_text s (magnitude_floor (Finite s m e)))"
proof -
  let ?n = "magnitude_floor (Finite s m e)"
  have small: "?n \<le> MAX_SAFE_INTEGER"
    using assms(2) by (rule magnitude_floor_le)
  show ?thesis
  proof (cases "is_negative_zero (Finite s m e)")
    case True
    then have "?n = 0" and "s" by auto
    with True show ?thesis
      by (simp add: canonicalizeNumber_def integer_text_def decimal_small digit_char_def js_def)
  next
    case False
    with assms Number_toString_integer [OF assms(1) small, of P] show ?thesis
      by (simp add: canonicalizeNumber_def Number_isSafeInteger_def
          del: magnitude_floor.simps Number_isInteger.simps abs_le.simps is_negative_zero.simps
            Number_toString.simps)
  qed
qed

lemma decimal_100: "decimal 100 = js ''100''"
  by (simp add: decimal_small decimal_step digit_char_def js_def)

lemma integral_trunc:
  "Number_isInteger (Finite s (magnitude_floor (Finite s m e)) 0) \<and>
   magnitude_floor (Finite s (magnitude_floor (Finite s m e)) 0) = magnitude_floor (Finite s m e) \<and>
   (abs_le (Finite s m e) b \<longrightarrow> abs_le (Finite s (magnitude_floor (Finite s m e)) 0) b)"
  using magnitude_floor_le [of s m e b] by simp

text \<open>
  C7. Negative zero is rendered \<open>0\<close>. A finite number that is an integer of magnitude
  at most \<open>2^53 - 1\<close> is rendered as the decimal digits of that integer (with a minus
  sign when negative): digits only, so no decimal point and no exponent, and the same
  text as the integer given with exponent zero. In particular every double whose value
  is 100, however it is stored, is rendered \<open>100\<close>.
\<close>

theorem number_normalization:
  "canonicalizeNumber P (Finite True 0 e) = Inr (js ''0'') \<and>
   (Number_isInteger (Finite s m e) \<and> abs_le (Finite s m e) MAX_SAFE_INTEGER \<longrightarrow>
      canonicalizeNumber P (Finite s m e) = Inr (integer_text s (magnitude_floor (Finite s m e))) \<and>
      canonicalizeNumber P (Finite s m e) = canonicalizeNumber P (Finite s (magnitude_floor (Finite s m e)) 0) \<and>
      list_all is_digit (decimal (magnitude_floor (Finite s m e)))) \<and>
   (Number_isInteger (Finite False m e) \<and> magnitude_floor (Finite False m e) = 100 \<longrightarrow>
      canonicalizeToString P (JNum (Finite False m e)) = Inr (js ''100''))"
proof (intro conjI impI)
  show "canonicalizeNumber P (Finite True 0 e) = Inr (js ''0'')"
    by (simp add: canonicalizeNumber_def)
next
  assume a: "Number_isInteger (Finite s m e) \<and> abs_le (Finite s m e) MAX_SAFE_INTEGER"
  then show t: "canonicalizeNumber P (Finite s m e) = Inr (integer_text s (magnitude_floor (Finite s m e)))"
    by (simp add: safe_integer_text del: magnitude_floor.simps Number_isInteger.simps abs_le.simps)
  from a integral_trunc [of s m e MAX_SAFE_INTEGER]
  have "canonicalizeNumber P (Finite s (magnitude_floor (Finite s m e)) 0)
      = Inr (integer_text s (magnitude_floor (Finite s m e)))"
    using safe_integer_text [of s "magnitude_floor (Finite s m e)" 0 P] by simp
  with t show "canonicalizeNumber P (Finite s m e) = canonicalizeNumber P (Finite s (magnitude_floor (Finite s m e)) 0)"
    by simp
  show "list_all is_digit (decimal (magnitude_floor (Finite s m e)))"
    by (rule decimal_digits)
next
  assume a: "Number_isInteger (Finite False m e) \<and> magnitude_floor (Finite False m e) = 100"
  then have "abs_le (Finite False m e) MAX_SAFE_INTEGER"
    by (cases "0 \<le> e") (auto simp: MAX_SAFE_INTEGER_def elim!: dvdE)
  with a safe_integer_text [of False m e P] show "canonicalizeToString P (JNum (Finite False m e)) = Inr (js ''100'')"
    by (simp add: canonicalizeToString_def canonicalizeValue.simps integer_text_def decimal_100
        del: magnitude_floor.simps Number_isInteger.simps abs_le.simps)
qed

theorem number_normalization_witness:
  "Number_isInteger (Finite False 7036874417766400 (- 46)) \<and>
   abs_le (Finite False 7036874417766400 (- 46)) MAX_SAFE_INTEGER \<and>
   magnitude_floor (Finite False 7036874417766400 (- 46)) = 100 \<and>
   canonicalizeToString ascii_platform (JNum (Finite False 7036874417766400 (- 46))) = Inr (js ''100'') \<and>
   canonicalizeNumber ascii_platform (Finite False 7036874417766400 (- 46))
     = canonicalizeNumber ascii_platform (Finite False 100 0)"
proof -
  have p: "(2::nat) ^ 46 = 70368744177664" by simp
  have i: "Number_isInteger (Finite False 7036874417766400 (- 46))"
    by (simp add: p)
  have f: "magnitude_floor (Finite False 7036874417766400 (- 46)) = 100"
    by (simp add: p)
  have l: "abs_le (Finite False 7036874417766400 (- 46)) MAX_SAFE_INTEGER"
    by (simp add: p MAX_SAFE_INTEGER_def)
  note n = number_normalization [of ascii_platform "- 46" False 7036874417766400]
  from n i f have a: "canonicalizeToString ascii_platform (JNum (Finite False 7036874417766400 (- 46))) = Inr (js ''100'')"
    by blast
  from n i l have "canonicalizeNumber ascii_platform (Finite False 7036874417766400 (- 46))
     = canonicalizeNumber ascii_platform (Finite False (magnitude_floor (Finite False 7036874417766400 (- 46))) 0)"
    by blast
  then have b: "canonicalizeNumber ascii_platform (Finite False 7036874417766400 (- 46))
     = canonicalizeNumber ascii_platform (Finite False 100 0)"
    by (simp only: f)
  from i f l a b show ?thesis
    by blast
qed

section \<open>Properties of strings\<close>

lemma foldl_append_concat:
  "foldl (\<lambda>result char. result @ f char) acc xs = acc @ concat (map f xs)"
  by (induction xs arbitrary: acc) simp_all

lemma toString16_small: "n < 16 \<Longrightarrow> toString16 n = [hex_digit n]"
  by (simp add: toString16.simps [of n])

lemma toString16_two: "16 \<le> n \<Longrightarrow> n < 256 \<Longrightarrow> toString16 n = [hex_digit (n div 16), hex_digit (n mod 16)]"
  by (simp add: toString16.simps [of n] toString16_small less_mult_imp_div_less)

lemma pad_control:
  assumes "n < 32"
  shows "padStart 4 (of_char CHR ''0'') (toString16 n) = js ''00'' @ [hex_digit (n div 16), hex_digit (n mod 16)]"
proof (cases "n < 16")
  case True
  then show ?thesis
    by (simp add: toString16_small padStart_def js_def hex_digit_def numeral_3_eq_3)
next
  case False
  with assms show ?thesis
    by (simp add: toString16_two padStart_def js_def numeral_2_eq_2)
qed

lemma above_space_literal:
  assumes "0x20 \<le> u" and "u \<noteq> dquote" and "u \<noteq> backslash"
  shows "spec_escape u = [u]"
proof -
  from assms(1) have "32 \<le> unat u" by (simp add: word_le_nat_alt)
  then have "u \<noteq> 0x08" "u \<noteq> 0x0C" "u \<noteq> 0x0A" "u \<noteq> 0x0D" "u \<noteq> 0x09" "\<not> u < 0x20"
    by (auto simp: word_less_nat_alt)
  with assms show ?thesis by (simp add: spec_escape_def)
qed

lemma escape_single: "escape_char [u] = spec_escape u"
proof (cases "u < 0x20")
  case True
  then have "unat u < 32"
    by (simp add: word_less_nat_alt)
  then have "padStart 4 (of_char CHR ''0'') (toString16 (unat u))
      = js ''00'' @ [hex_digit (unat u div 16), hex_digit (unat u mod 16)]"
    by (rule pad_control)
  then show ?thesis
    by (simp add: spec_escape_def js_def Let_def)
next
  case False
  then show ?thesis
    by (simp add: spec_escape_def js_def Let_def)
qed

lemma surrogate_above_space:
  assumes "is_high_surrogate u \<or> is_low_surrogate u"
  shows "0x20 \<le> u \<and> u \<noteq> dquote \<and> u \<noteq> backslash"
proof -
  from assms have "0xD800 \<le> unat u"
    by (auto simp: is_high_surrogate_def is_low_surrogate_def word_le_nat_alt)
  then show ?thesis
    by (auto simp: dquote_def backslash_def word_le_nat_alt)
qed

lemma surrogate_literal:
  assumes "is_high_surrogate u \<or> is_low_surrogate u"
  shows "spec_escape u = [u]"
  using surrogate_above_space [OF assms] by (simp add: above_space_literal)

lemma escape_pair:
  assumes "is_high_surrogate u" and "is_low_surrogate v"
  shows "escape_char [u, v] = [u, v]"
proof -
  from assms(1) surrogate_above_space [of u] have "0x20 \<le> u" by simp
  then have "\<not> u < 0x20" by simp
  then show ?thesis by (simp add: Let_def)
qed

lemma escape_code_points:
  "concat (map escape_char (code_points str)) = concat (map spec_escape str)"
proof (induction str rule: code_points.induct)
  case 1
  then show ?case by simp
next
  case (2 u)
  then show ?case by (simp add: escape_single del: escape_char.simps)
next
  case (3 u v rest)
  show ?case
  proof (cases "is_high_surrogate u \<and> is_low_surrogate v")
    case True
    with 3 show ?thesis
      by (simp add: escape_pair surrogate_literal del: escape_char.simps)
  next
    case False
    then have "code_points (u # v # rest) = [u] # code_points (v # rest)"
      by auto
    with False 3 show ?thesis
      by (simp add: escape_single del: escape_char.simps code_points.simps)
  qed
qed

text \<open>
  C5. The canonical text of a string is a double quote, the escapes of the code units
  of its NFC normalisation in order, and a double quote, where the escape of a code unit
  is the one the specification lists; a code unit at U+0020 or above other than \<open>"\<close>
  and \<open>\\<close> (every non-ASCII character and every half of a surrogate pair included) is
  written as itself. \<open>canonicalize\<close> writes that text in UTF-8.
\<close>

theorem string_escaping:
  "canonicalizeString P str = [dquote] @ concat (map spec_escape (normalize_NFC P str)) @ [dquote] \<and>
   canonicalizeToString P (JStr str) = Inr (canonicalizeString P str) \<and>
   canonicalize P (JStr str) = Inr (TextEncoder_encode (canonicalizeString P str)) \<and>
   (0x20 \<le> u \<and> u \<noteq> dquote \<and> u \<noteq> backslash \<longrightarrow> spec_escape u = [u])"
  by (simp add: canonicalizeString_def foldl_append_concat escape_code_points
      canonicalizeToString_def canonicalize_def above_space_literal)


theorem string_escaping_witness:
  "(0x20 :: code_unit) \<le> 0xE9 \<and> (0xE9 :: code_unit) \<noteq> dquote \<and> (0xE9 :: code_unit) \<noteq> backslash \<and>
   spec_escape 0xE9 = [0xE9] \<and>
   canonicalizeString ascii_platform
       (js ''say '' @ [dquote] @ js ''hi'' @ [dquote, 0x1F, 0x0A, 0xE9, 0xD83D, 0xDE00])
     = [dquote] @ js ''say '' @ [backslash, dquote] @ js ''hi'' @ [backslash, dquote]
         @ backslash # js ''u001f'' @ backslash # js ''n'' @ [0xE9, 0xD83D, 0xDE00] @ [dquote]"
  using string_escaping [of ascii_platform
      "js ''say '' @ [dquote] @ js ''hi'' @ [dquote, 0x1F, 0x0A, 0xE9, 0xD83D, 0xDE00]" "0xE9"]
  by (simp add: spec_escape_def ascii_platform_def nfc_singletons_def js_def dquote_def
      backslash_def hex_digit_def)

section \<open>Properties of objects\<close>

text \<open>The comparator of the source decides the order of the specification.\<close>

lemma ordinal_le_iff: "ordinal_le a b = (a \<le> b)"
  by (induction a b rule: ordinal_le.induct) simp_all

lemma compare_from_drop:
  "minLen = min (length a) (length b) \<Longrightarrow> i \<le> minLen \<Longrightarrow>
   (compare_from i minLen a b \<le> 0) = ordinal_le (drop i a) (drop i b)"
proof (induction i minLen a b rule: compare_from.induct)
  case (1 i minLen a b)
  show ?case
  proof (cases "i < minLen")
    case True
    with 1(2) have d: "drop i a = a ! i # drop (Suc i) a" "drop i b = b ! i # drop (Suc i) b"
      by (simp_all add: Cons_nth_drop_Suc)
    show ?thesis
    proof (cases "a ! i = b ! i")
      case same: True
      with True 1 d show ?thesis
        by (simp add: compare_from.simps [of i])
    next
      case False
      have diff: "(int m - int n \<le> 0) = (m < n)" if "m \<noteq> n" for m n :: nat
        using that by auto
      from False have "unat (a ! i) \<noteq> unat (b ! i)"
        by (simp add: word_unat_eq_iff)
      then have "(int (unat (a ! i)) - int (unat (b ! i)) \<le> 0) = (a ! i < b ! i)"
        unfolding word_less_nat_alt by (rule diff)
      with True False d show ?thesis
        by (simp add: compare_from.simps [of i])
    qed
  next
    case False
    with 1(2,3) have i: "i = min (length a) (length b)" by auto
    from False have cf: "compare_from i minLen a b = int (length a) - int (length b)"
      by (simp add: compare_from.simps [of i])
    show ?thesis
    proof (cases "length a \<le> length b")
      case True
      with i have "drop i a = []" by simp
      with True show ?thesis
        unfolding cf by simp
    next
      case gt: False
      then have "drop i b = []" "drop i a \<noteq> []" using i by simp_all
      then obtain x r where "drop i a = x # r" by (cases "drop i a") auto
      with gt \<open>drop i b = []\<close> show ?thesis
        unfolding cf by simp
    qed
  qed
qed

lemma key_compare_ordinal: "(key_compare a b \<le> 0) = ordinal_le a b"
  using compare_from_drop [of "min (length a) (length b)" a b 0]
  by (simp add: key_compare_def)

lemma insert_with_insort: "insert_with key_compare x xs = insort x xs"
  by (induction xs) (simp_all add: key_compare_ordinal ordinal_le_iff)

lemma sort_with_sort: "sort_with key_compare xs = sort xs"
  by (induction xs) (simp_all add: sort_with_def insert_with_insort)

lemma sorted_wrt_ordinal: "sorted_wrt ordinal_le xs = sorted xs"
proof -
  have "ordinal_le = (\<le>)"
    by (intro ext) (rule ordinal_le_iff)
  then show ?thesis by simp
qed

lemma sort_with_sorted: "sorted_wrt ordinal_le (sort_with key_compare xs)"
  by (simp add: sorted_wrt_ordinal sort_with_sort)

lemma sort_with_mset: "mset (sort_with key_compare xs) = mset xs"
  by (simp add: sort_with_sort)

lemma sort_with_unique:
  "mset ys = mset xs \<Longrightarrow> sorted_wrt ordinal_le ys \<Longrightarrow> ys = sort_with key_compare xs"
  by (simp add: sorted_wrt_ordinal sort_with_sort properties_for_sort)

text \<open>The loop over the sorted keys, member by member.\<close>

lemma lookup_first_match:
  "key \<in> set (map (normalize_NFC P) (Object_keys obj)) \<Longrightarrow>
   js_get obj (case find (\<lambda>k. normalize_NFC P k = key) (Object_keys obj) of
                 None \<Rightarrow> js ''undefined'' | Some k \<Rightarrow> k)
   = first_match P obj key"
proof (induction obj)
  case Nil
  then show ?case by (simp add: Object_keys_def)
next
  case (Cons p obj)
  obtain k v where p: "p = (k, v)" by (cases p)
  show ?case
  proof (cases "normalize_NFC P k = key")
    case True
    with p show ?thesis
      by (simp add: Object_keys_def js_get_def first_match_def)
  next
    case False
    with Cons.prems p have mem: "key \<in> set (map (normalize_NFC P) (Object_keys obj))"
      by (auto simp: Object_keys_def)
    then obtain k' where f: "find (\<lambda>k. normalize_NFC P k = key) (Object_keys obj) = Some k'"
      by (cases "find (\<lambda>k. normalize_NFC P k = key) (Object_keys obj)") (auto simp: find_None_iff)
    then have "normalize_NFC P k' = key"
      by (auto simp: find_Some_iff)
    with False have "k' \<noteq> k" by auto
    with Cons.IH [OF mem] f False p show ?thesis
      by (simp add: Object_keys_def js_get_def first_match_def)
  qed
qed

lemma canonicalizeObject_members:
  "canonicalizeObject P obj =
     (case sequence_result (map (member_of P obj)
             (sort_with key_compare (map (normalize_NFC P) (Object_keys obj)))) of
        Inl e \<Rightarrow> Inl e
      | Inr pairs \<Rightarrow> Inr (js ''{'' @ join (js '','') pairs @ js ''}''))"
proof -
  let ?keys = "sort_with key_compare (map (normalize_NFC P) (Object_keys obj))"
  have "set ?keys = set (map (normalize_NFC P) (Object_keys obj))"
    using sort_with_mset [of "map (normalize_NFC P) (Object_keys obj)"] by (metis set_mset_mset)
  then have eq: "map (\<lambda>key.
             case canonicalizeValue P (js_get obj
                  (case find (\<lambda>k. normalize_NFC P k = key) (Object_keys obj) of
                     None \<Rightarrow> js ''undefined'' | Some k \<Rightarrow> k)) of
                  Inl e \<Rightarrow> Inl e
                | Inr s \<Rightarrow> Inr (canonicalizeString P key @ js '':'' @ s)) ?keys
      = map (member_of P obj) ?keys"
    by (intro map_cong refl) (simp add: lookup_first_match member_of_def)
  show ?thesis
    by (simp only: canonicalizeObject.simps [of P obj] Let_def eq)
qed

lemma sequence_result_texts:
  assumes "sequence_result (map (\<lambda>key. case g key of Inl e \<Rightarrow> Inl e | Inr text \<Rightarrow> Inr (h key text)) keys) = Inr pairs"
  shows "\<exists>texts. length texts = length keys \<and> map g keys = map Inr texts \<and> pairs = map2 h keys texts"
  using assms
proof (induction keys arbitrary: pairs)
  case Nil
  then show ?case by simp
next
  case (Cons key keys)
  from Cons.prems obtain t where g: "g key = Inr t"
    by (cases "g key") auto
  with Cons.prems obtain rest where
    r: "sequence_result (map (\<lambda>key. case g key of Inl e \<Rightarrow> Inl e | Inr text \<Rightarrow> Inr (h key text)) keys) = Inr rest"
    and p: "pairs = h key t # rest"
    by (auto split: sum.splits)
  from Cons.IH [OF r] obtain texts where
    "length texts = length keys" "map g keys = map Inr texts" "rest = map2 h keys texts"
    by blast
  with g p have "length (t # texts) = length (key # keys) \<and> map g (key # keys) = map Inr (t # texts) \<and>
      pairs = map2 h (key # keys) (t # texts)"
    by simp
  then show ?case by blast
qed

lemma small_integer_text:
  "n \<le> MAX_SAFE_INTEGER \<Longrightarrow> canonicalizeNumber P (Finite False n 0) = Inr (decimal n)"
  using safe_integer_text [of False n 0 P] by (simp add: integer_text_def)

lemma canonicalizeString_escape:
  "canonicalizeString P str = [dquote] @ concat (map spec_escape (normalize_NFC P str)) @ [dquote]"
  by (simp add: canonicalizeString_def foldl_append_concat escape_code_points)

lemma ascii_keys:
  "normalize_NFC ascii_platform (js ''z_key'') = js ''z_key''"
  "normalize_NFC ascii_platform (js ''a_key'') = js ''a_key''"
  "normalize_NFC ascii_platform (js ''A_key'') = js ''A_key''"
  "normalize_NFC ascii_platform (js ''m_key'') = js ''m_key''"
  by (simp_all add: ascii_platform_def nfc_singletons_def js_def)

lemma four_keys: \<open>canonicalizeObject ascii_platform
     [(js ''z_key'', JNum (Finite False 1 0)), (js ''a_key'', JNum (Finite False 2 0)),
      (js ''A_key'', JNum (Finite False 3 0)), (js ''m_key'', JNull)]
   = Inr (js ''{"A_key":3,"a_key":2,"m_key":null,"z_key":1}'')\<close>
proof -
  have keys: "sort_with key_compare (map (normalize_NFC ascii_platform)
      (Object_keys [(js ''z_key'', JNum (Finite False 1 0)), (js ''a_key'', JNum (Finite False 2 0)),
      (js ''A_key'', JNum (Finite False 3 0)), (js ''m_key'', JNull)]))
     = [js ''A_key'', js ''a_key'', js ''m_key'', js ''z_key'']"
    by (simp add: Object_keys_def ascii_keys) (simp add: sort_with_def key_compare_ordinal js_def)
  have ne: "js ''z_key'' \<noteq> js ''A_key''" "js ''z_key'' \<noteq> js ''a_key''" "js ''z_key'' \<noteq> js ''m_key''"
    "js ''a_key'' \<noteq> js ''A_key''" "js ''a_key'' \<noteq> js ''m_key''" "js ''A_key'' \<noteq> js ''m_key''"
    by (simp_all add: js_def)
  have texts: \<open>canonicalizeString ascii_platform (js ''z_key'') = js ''"z_key"''\<close>
    \<open>canonicalizeString ascii_platform (js ''a_key'') = js ''"a_key"''\<close>
    \<open>canonicalizeString ascii_platform (js ''A_key'') = js ''"A_key"''\<close>
    \<open>canonicalizeString ascii_platform (js ''m_key'') = js ''"m_key"''\<close>
    by (simp_all add: canonicalizeString_escape ascii_keys)
      (simp_all add: js_def spec_escape_def dquote_def backslash_def)
  show ?thesis
    unfolding canonicalizeObject_members keys
    by (simp add: member_of_def first_match_def ascii_keys ne ne [symmetric] texts small_integer_text
        MAX_SAFE_INTEGER_def decimal_small)
      (simp add: js_def digit_char_def)
qed

text \<open>
  C4. The keys an object is emitted with are the NFC normalisations of its keys, in the
  order of the specification (ordinal comparison of UTF-16 code units, a prefix first):
  the list the members are built from is sorted in that order, is a rearrangement of the
  normalised keys, and is the only such list, so the engine's sorting algorithm does not
  matter; the comparator of the source decides exactly that order; a key is written as
  the escaped text of its normalisation (normalising twice changes nothing); a
  successful output is the members of these keys in this order, joined by commas
  between braces. The keys
  \<open>z_key, a_key, A_key, m_key\<close> are emitted in the order \<open>A_key, a_key, m_key, z_key\<close>.
\<close>

theorem object_keys_sorted:
  "sorted_wrt ordinal_le (sort_with key_compare (map (normalize_NFC P) (Object_keys obj))) \<and>
   mset (sort_with key_compare (map (normalize_NFC P) (Object_keys obj)))
     = mset (map (normalize_NFC P) (Object_keys obj)) \<and>
   (key_compare a b \<le> 0) = ordinal_le a b \<and>
   (normalize_NFC P (normalize_NFC P k) = normalize_NFC P k \<longrightarrow>
      canonicalizeString P (normalize_NFC P k)
        = [dquote] @ concat (map spec_escape (normalize_NFC P k)) @ [dquote]) \<and>
   (mset ys = mset (map (normalize_NFC P) (Object_keys obj)) \<and> sorted_wrt ordinal_le ys \<longrightarrow>
      ys = sort_with key_compare (map (normalize_NFC P) (Object_keys obj))) \<and>
   (canonicalizeObject P obj = Inr out \<longrightarrow>
      (\<exists>texts. length texts = length obj \<and>
         map (\<lambda>key. canonicalizeValue P (first_match P obj key))
             (sort_with key_compare (map (normalize_NFC P) (Object_keys obj))) = map Inr texts \<and>
         out = js ''{'' @ join (js '','')
                 (map2 (\<lambda>key text. canonicalizeString P key @ js '':'' @ text)
                    (sort_with key_compare (map (normalize_NFC P) (Object_keys obj))) texts) @ js ''}'')) \<and>
   sort_with key_compare [js ''z_key'', js ''a_key'', js ''A_key'', js ''m_key'']
     = [js ''A_key'', js ''a_key'', js ''m_key'', js ''z_key'']"
proof (intro conjI impI)
  let ?keys = "sort_with key_compare (map (normalize_NFC P) (Object_keys obj))"
  show "sorted_wrt ordinal_le ?keys" by (rule sort_with_sorted)
  show "mset ?keys = mset (map (normalize_NFC P) (Object_keys obj))" by (rule sort_with_mset)
  show "(key_compare a b \<le> 0) = ordinal_le a b" by (rule key_compare_ordinal)
  show "canonicalizeString P (normalize_NFC P k)
        = [dquote] @ concat (map spec_escape (normalize_NFC P k)) @ [dquote]"
    if "normalize_NFC P (normalize_NFC P k) = normalize_NFC P k"
    using that by (simp add: canonicalizeString_escape)
  show "ys = ?keys" if "mset ys = mset (map (normalize_NFC P) (Object_keys obj)) \<and> sorted_wrt ordinal_le ys"
    using that by (simp add: sort_with_unique)
  show "\<exists>texts. length texts = length obj \<and>
         map (\<lambda>key. canonicalizeValue P (first_match P obj key)) ?keys = map Inr texts \<and>
         out = js ''{'' @ join (js '','')
                 (map2 (\<lambda>key text. canonicalizeString P key @ js '':'' @ text) ?keys texts) @ js ''}''"
    if "canonicalizeObject P obj = Inr out"
  proof -
    from that obtain pairs where
      s: "sequence_result (map (member_of P obj) ?keys) = Inr pairs" and
      o: "out = js ''{'' @ join (js '','') pairs @ js ''}''"
      by (auto simp: canonicalizeObject_members split: sum.splits)
    have len: "length ?keys = length obj"
      using sort_with_mset [of "map (normalize_NFC P) (Object_keys obj)"]
      by (metis length_map size_mset Object_keys_def)
    from s have "sequence_result (map (\<lambda>key. case canonicalizeValue P (first_match P obj key) of
        Inl e \<Rightarrow> Inl e | Inr text \<Rightarrow> Inr (canonicalizeString P key @ js '':'' @ text)) ?keys) = Inr pairs"
      by (simp add: member_of_def [abs_def])
    from sequence_result_texts [where g = "\<lambda>key. canonicalizeValue P (first_match P obj key)"
        and h = "\<lambda>key text. canonicalizeString P key @ js '':'' @ text", OF this] len o
    show ?thesis
      by auto
  qed
  show "sort_with key_compare [js ''z_key'', js ''a_key'', js ''A_key'', js ''m_key'']
     = [js ''A_key'', js ''a_key'', js ''m_key'', js ''z_key'']"
    by (simp add: sort_with_def key_compare_ordinal js_def)
qed

theorem object_keys_sorted_witness:
  \<open>canonicalizeObject ascii_platform
     [(js ''z_key'', JNum (Finite False 1 0)), (js ''a_key'', JNum (Finite False 2 0)),
      (js ''A_key'', JNum (Finite False 3 0)), (js ''m_key'', JNull)]
     = Inr (js ''{"A_key":3,"a_key":2,"m_key":null,"z_key":1}'') \<and>
   mset [js ''A_key'', js ''a_key'', js ''m_key'', js ''z_key'']
     = mset (map (normalize_NFC ascii_platform) (Object_keys
         [(js ''z_key'', JNum (Finite False 1 0)), (js ''a_key'', JNum (Finite False 2 0)),
          (js ''A_key'', JNum (Finite False 3 0)), (js ''m_key'', JNull)])) \<and>
   sorted_wrt ordinal_le [js ''A_key'', js ''a_key'', js ''m_key'', js ''z_key''] \<and>
   sort_with key_compare (map (normalize_NFC ascii_platform) (Object_keys
         [(js ''z_key'', JNum (Finite False 1 0)), (js ''a_key'', JNum (Finite False 2 0)),
          (js ''A_key'', JNum (Finite False 3 0)), (js ''m_key'', JNull)]))
     = [js ''A_key'', js ''a_key'', js ''m_key'', js ''z_key''] \<and>
   normalize_NFC ascii_platform (normalize_NFC ascii_platform (js ''z_key''))
     = normalize_NFC ascii_platform (js ''z_key'') \<and>
   canonicalizeString ascii_platform (normalize_NFC ascii_platform (js ''z_key''))
     = [dquote] @ concat (map spec_escape (normalize_NFC ascii_platform (js ''z_key''))) @ [dquote]\<close>
proof -
  let ?obj = "[(js ''z_key'', JNum (Finite False 1 0)), (js ''a_key'', JNum (Finite False 2 0)),
      (js ''A_key'', JNum (Finite False 3 0)), (js ''m_key'', JNull)]"
  let ?ys = "[js ''A_key'', js ''a_key'', js ''m_key'', js ''z_key'']"
  have m: "mset ?ys = mset (map (normalize_NFC ascii_platform) (Object_keys ?obj))"
    by (simp add: Object_keys_def ascii_keys)
  have s: "sorted_wrt ordinal_le ?ys"
    by (simp add: js_def)
  have i: "normalize_NFC ascii_platform (normalize_NFC ascii_platform (js ''z_key''))
     = normalize_NFC ascii_platform (js ''z_key'')"
    by (simp add: ascii_keys)
  note t = object_keys_sorted [of ascii_platform ?obj "[]" "[]" "js ''z_key''" ?ys]
  from t m s
  have k: "?ys = sort_with key_compare (map (normalize_NFC ascii_platform) (Object_keys ?obj))"
    by blast
  from t i
  have e: "canonicalizeString ascii_platform (normalize_NFC ascii_platform (js ''z_key''))
     = [dquote] @ concat (map spec_escape (normalize_NFC ascii_platform (js ''z_key''))) @ [dquote]"
    by blast
  from four_keys m s k [symmetric] i e show ?thesis
    by blast
qed

lemma collide_two:
  assumes "normalize_NFC P k1 = normalize_NFC P k2"
  shows "canonicalizeObject P [(k1, v1), (k2, v2)] =
        (case canonicalizeValue P v1 of
           Inl e \<Rightarrow> Inl e
         | Inr text \<Rightarrow>
             Inr (js ''{'' @ canonicalizeString P (normalize_NFC P k1) @ js '':'' @ text @ js '',''
                  @ canonicalizeString P (normalize_NFC P k1) @ js '':'' @ text @ js ''}''))"
proof -
  have "ordinal_le (normalize_NFC P k2) (normalize_NFC P k2)"
    by (simp add: ordinal_le_iff)
  with assms have keys: "sort_with key_compare (map (normalize_NFC P) (Object_keys [(k1, v1), (k2, v2)]))
      = [normalize_NFC P k1, normalize_NFC P k1]"
    by (simp add: sort_with_def Object_keys_def key_compare_ordinal)
  from assms have fm: "first_match P [(k1, v1), (k2, v2)] (normalize_NFC P k1) = v1"
    by (simp add: first_match_def)
  show ?thesis
    by (simp add: canonicalizeObject_members keys member_of_def fm split: sum.splits)
qed

lemma ascii_K: "normalize_NFC ascii_platform (js ''K'') = js ''K''"
  "normalize_NFC ascii_platform [0x212A] = js ''K''"
  by (simp_all add: ascii_platform_def nfc_singletons_def js_def)

lemma text_K: "canonicalizeString ascii_platform (js ''K'') = dquote # js ''K'' @ [dquote]"
  by (simp add: canonicalizeString_escape ascii_K) (simp add: js_def spec_escape_def dquote_def backslash_def)

text \<open>
  C9. Every object is emitted with one member per original key, and the value of the
  member of a key is the one of the first original key, in the order of enumeration,
  whose NFC normalisation is that key. So when two distinct keys have the same
  normalisation, the normalised key is emitted twice, both times with the value of the
  first of the two; the value of the second is never read, let alone emitted.
\<close>

theorem colliding_keys_first_wins:
  "canonicalizeObject P obj =
     (case sequence_result (map (member_of P obj)
             (sort_with key_compare (map (normalize_NFC P) (Object_keys obj)))) of
        Inl e \<Rightarrow> Inl e
      | Inr pairs \<Rightarrow> Inr (js ''{'' @ join (js '','') pairs @ js ''}'')) \<and>
   length (sort_with key_compare (map (normalize_NFC P) (Object_keys obj))) = length obj \<and>
   (k1 \<noteq> k2 \<and> normalize_NFC P k1 = normalize_NFC P k2 \<longrightarrow>
      sort_with key_compare (map (normalize_NFC P) (Object_keys [(k1, v1), (k2, v2)]))
        = [normalize_NFC P k1, normalize_NFC P k1] \<and>
      first_match P [(k1, v1), (k2, v2)] (normalize_NFC P k1) = v1 \<and>
      canonicalizeObject P [(k1, v1), (k2, v2)] =
        (case canonicalizeValue P v1 of
           Inl e \<Rightarrow> Inl e
         | Inr text \<Rightarrow>
             Inr (js ''{'' @ canonicalizeString P (normalize_NFC P k1) @ js '':'' @ text @ js '',''
                  @ canonicalizeString P (normalize_NFC P k1) @ js '':'' @ text @ js ''}'')))"
proof (intro conjI impI)
  show "canonicalizeObject P obj =
     (case sequence_result (map (member_of P obj)
             (sort_with key_compare (map (normalize_NFC P) (Object_keys obj)))) of
        Inl e \<Rightarrow> Inl e
      | Inr pairs \<Rightarrow> Inr (js ''{'' @ join (js '','') pairs @ js ''}''))"
    by (rule canonicalizeObject_members)
  show "length (sort_with key_compare (map (normalize_NFC P) (Object_keys obj))) = length obj"
    using sort_with_mset [of "map (normalize_NFC P) (Object_keys obj)"]
    by (metis length_map size_mset Object_keys_def)
next
  assume a: "k1 \<noteq> k2 \<and> normalize_NFC P k1 = normalize_NFC P k2"
  have "ordinal_le (normalize_NFC P k2) (normalize_NFC P k2)"
    by (simp add: ordinal_le_iff)
  with a show "sort_with key_compare (map (normalize_NFC P) (Object_keys [(k1, v1), (k2, v2)]))
      = [normalize_NFC P k1, normalize_NFC P k1]"
    by (simp add: sort_with_def Object_keys_def key_compare_ordinal)
  from a show "first_match P [(k1, v1), (k2, v2)] (normalize_NFC P k1) = v1"
    by (simp add: first_match_def)
  from a show "canonicalizeObject P [(k1, v1), (k2, v2)] =
        (case canonicalizeValue P v1 of
           Inl e \<Rightarrow> Inl e
         | Inr text \<Rightarrow>
             Inr (js ''{'' @ canonicalizeString P (normalize_NFC P k1) @ js '':'' @ text @ js '',''
                  @ canonicalizeString P (normalize_NFC P k1) @ js '':'' @ text @ js ''}''))"
    by (simp add: collide_two)
qed

theorem colliding_keys_first_wins_witness:
  \<open>js ''K'' \<noteq> [0x212A] \<and>
   normalize_NFC ascii_platform (js ''K'') = normalize_NFC ascii_platform [0x212A] \<and>
   canonicalizeObject ascii_platform [(js ''K'', JNum (Finite False 1 0)), ([0x212A], JFunction)]
     = Inr (js ''{"K":1,"K":1}'')\<close>
proof -
  have d: "js ''K'' \<noteq> [0x212A]" by (simp add: js_def)
  have n: "normalize_NFC ascii_platform (js ''K'') = normalize_NFC ascii_platform [0x212A]"
    by (simp add: ascii_K)
  from colliding_keys_first_wins [of ascii_platform "[]" "js ''K''" "[0x212A]" "JNum (Finite False 1 0)" JFunction] d n
  have "canonicalizeObject ascii_platform [(js ''K'', JNum (Finite False 1 0)), ([0x212A], JFunction)] =
        (case canonicalizeValue ascii_platform (JNum (Finite False 1 0)) of
           Inl e \<Rightarrow> Inl e
         | Inr text \<Rightarrow>
             Inr (js ''{'' @ canonicalizeString ascii_platform (normalize_NFC ascii_platform (js ''K'')) @ js '':'' @ text @ js '',''
                  @ canonicalizeString ascii_platform (normalize_NFC ascii_platform (js ''K'')) @ js '':'' @ text @ js ''}''))"
    by blast
  then have \<open>canonicalizeObject ascii_platform [(js ''K'', JNum (Finite False 1 0)), ([0x212A], JFunction)]
     = Inr (js ''{"K":1,"K":1}'')\<close>
    by (simp add: ascii_K small_integer_text MAX_SAFE_INTEGER_def decimal_small text_K)
      (simp add: js_def dquote_def digit_char_def)
  with d n show ?thesis by blast
qed

lemma collide_K1: \<open>canonicalizeObject ascii_platform [(js ''K'', JNum (Finite False 1 0)), ([0x212A], JNum (Finite False 2 0))]
   = Inr (js ''{"K":1,"K":1}'')\<close>
  by (simp add: collide_two ascii_K small_integer_text MAX_SAFE_INTEGER_def decimal_small text_K)
    (simp add: js_def dquote_def digit_char_def)

lemma collide_K2: \<open>canonicalizeObject ascii_platform [([0x212A], JNum (Finite False 2 0)), (js ''K'', JNum (Finite False 1 0))]
   = Inr (js ''{"K":2,"K":2}'')\<close>
  by (simp add: collide_two ascii_K small_integer_text MAX_SAFE_INTEGER_def decimal_small text_K)
    (simp add: js_def dquote_def digit_char_def)

lemma encode_K1: \<open>TextEncoder_encode (js ''{"K":1,"K":1}'') = ascii_bytes ''{"K":1,"K":1}''\<close>
  by (simp add: TextEncoder_encode_def js_def ascii_bytes_def surrogate_or_def
      is_high_surrogate_def is_low_surrogate_def utf8_bytes_def)

lemma encode_K2: \<open>TextEncoder_encode (js ''{"K":2,"K":2}'') = ascii_bytes ''{"K":2,"K":2}''\<close>
  by (simp add: TextEncoder_encode_def js_def ascii_bytes_def surrogate_or_def
      is_high_surrogate_def is_low_surrogate_def utf8_bytes_def)

text \<open>
  Two objects with the same properties in different orders have the same canonical text
  when no two keys of theirs have the same NFC normalisation.
\<close>

lemma filter_le_one: "distinct (map f zs) \<Longrightarrow> length (filter (\<lambda>p. f p = k) zs) \<le> 1"
  by (induction zs) (auto simp: filter_empty_conv image_iff)

lemma mset_eq_short: "mset xs = mset ys \<Longrightarrow> length xs \<le> 1 \<Longrightarrow> xs = ys"
proof (cases xs)
  case Nil
  assume "mset xs = mset ys"
  with Nil show ?thesis by simp
next
  case (Cons x r)
  assume "length xs \<le> 1" and m: "mset xs = mset ys"
  with Cons have "xs = [x]" by simp
  with m show ?thesis
    by (metis mset.simps(1) mset.simps(2) mset_single_iff_right)
qed

lemma filter_singleton_eq:
  assumes "distinct (map f xs)" and "mset xs = mset ys"
  shows "filter (\<lambda>p. f p = k) xs = filter (\<lambda>p. f p = k) ys"
proof -
  from assms(2) have "mset (filter (\<lambda>p. f p = k) xs) = mset (filter (\<lambda>p. f p = k) ys)"
    by simp
  then show ?thesis
    using filter_le_one [OF assms(1), of k] by (rule mset_eq_short)
qed

lemma key_order_invariance_distinct:
  assumes "distinct (map (normalize_NFC P) (Object_keys m1))" and "mset m1 = mset m2"
  shows "canonicalizeObject P m1 = canonicalizeObject P m2"
proof -
  have m: "mset (map (normalize_NFC P) (Object_keys m2)) = mset (map (normalize_NFC P) (Object_keys m1))"
    using assms(2) by (metis Object_keys_def mset_map)
  have "sorted_wrt ordinal_le (sort_with key_compare (map (normalize_NFC P) (Object_keys m2)))"
    by (rule sort_with_sorted)
  with m have keys: "sort_with key_compare (map (normalize_NFC P) (Object_keys m2))
      = sort_with key_compare (map (normalize_NFC P) (Object_keys m1))"
    by (intro sort_with_unique) (simp_all add: sort_with_mset)
  from assms(1) have "distinct (map (\<lambda>p. normalize_NFC P (fst p)) m1)"
    by (simp add: Object_keys_def comp_def)
  from filter_singleton_eq [OF this assms(2)]
  have "first_match P m1 key = first_match P m2 key" for key
    by (simp add: first_match_def)
  then have "member_of P m1 = member_of P m2"
    by (intro ext) (simp add: member_of_def)
  with keys show ?thesis
    by (simp add: canonicalizeObject_members)
qed

text \<open>
  C8 fails on the code when two keys have the same NFC normalisation: KELVIN SIGN
  (U+212A) normalises to \<open>K\<close>, and the object with the property \<open>K\<close> of value 1
  followed by the property U+212A of value 2, and the object with the same two
  properties in the other order, are rendered \<open>{"K":1,"K":1}\<close> and \<open>{"K":2,"K":2}\<close>.
\<close>

theorem key_order_collision:
  \<open>canonicalize ascii_platform
      (JObj [(js ''K'', JNum (Finite False 1 0)), ([0x212A], JNum (Finite False 2 0))])
     = Inr (ascii_bytes ''{"K":1,"K":1}'') \<and>
   canonicalize ascii_platform
      (JObj [([0x212A], JNum (Finite False 2 0)), (js ''K'', JNum (Finite False 1 0))])
     = Inr (ascii_bytes ''{"K":2,"K":2}'') \<and>
   mset [(js ''K'', JNum (Finite False 1 0)), ([0x212A], JNum (Finite False 2 0))]
     = mset [([0x212A], JNum (Finite False 2 0)), (js ''K'', JNum (Finite False 1 0))] \<and>
   ascii_bytes ''{"K":1,"K":1}'' \<noteq> ascii_bytes ''{"K":2,"K":2}''\<close>
  by (simp add: canonicalize_def canonicalizeToString_def collide_K1 collide_K2 encode_K1 encode_K2
      del: One_nat_def)
    (simp add: ascii_bytes_def)

section \<open>Properties of re-canonicalization\<close>

lemma decode_K1: \<open>TextDecoder_decode (ascii_bytes ''{"K":1,"K":1}'') = js ''{"K":1,"K":1}''\<close>
  by (simp add: TextDecoder_decode_def ascii_bytes_def js_def utf8_initial_def utf8_first_def
      strip_bom_def utf16_units_def)

lemma tokens_K1: \<open>tokenize P (js ''{"K":1,"K":1}'') =
    Some [LBrace, TStr (js ''K''), Colon, TNum (Finite False 1 0), Comma,
          TStr (js ''K''), Colon, TNum (Finite False 1 0), RBrace]\<close>
  by (simp add: js_def tokenize.simps(2) is_whitespace_def dquote_def backslash_def prepend_def
      is_digit_def lex_number_def lex_fraction_def lex_exponent_def digits_value_def)

lemma parse_K1: \<open>JSON_parse P (js ''{"K":1,"K":1}'') = Inr (JObj [(js ''K'', JNum (Finite False 1 0))])\<close>
  by (simp add: JSON_parse_def tokens_K1 step_def begin_value_def begin_member_def close_object_def
      scalar_token_def own_property_order_def is_array_index_def)

lemma canonical_K: \<open>canonicalize ascii_platform (JObj [(js ''K'', JNum (Finite False 1 0))])
    = Inr (ascii_bytes ''{"K":1}'')\<close>
proof -
  have keys: "sort_with key_compare (map (normalize_NFC ascii_platform)
      (Object_keys [(js ''K'', JNum (Finite False 1 0))])) = [js ''K'']"
    by (simp add: Object_keys_def ascii_K sort_with_def)
  have \<open>canonicalizeObject ascii_platform [(js ''K'', JNum (Finite False 1 0))] = Inr (js ''{"K":1}'')\<close>
    unfolding canonicalizeObject_members keys
    by (simp add: member_of_def first_match_def ascii_K text_K small_integer_text
        MAX_SAFE_INTEGER_def decimal_small)
      (simp add: js_def dquote_def digit_char_def)
  then show ?thesis
    by (simp add: canonicalize_def canonicalizeToString_def del: One_nat_def)
      (simp add: TextEncoder_encode_def js_def ascii_bytes_def surrogate_or_def
        is_high_surrogate_def is_low_surrogate_def utf8_bytes_def)
qed

text \<open>
  C1 fails on the code for the same object: \<open>canonicalize\<close> succeeds on the object
  with the property \<open>K\<close> of value 1 followed by the property U+212A of value 2, with
  the bytes of \<open>{"K":1,"K":1}\<close>; \<open>canonicalizeBytes\<close> of these bytes is \<open>{"K":1}\<close>,
  and \<open>validateIntegrity\<close> rejects the output of \<open>canonicalize\<close>.
\<close>

theorem idempotence_collision:
  \<open>canonicalize ascii_platform
      (JObj [(js ''K'', JNum (Finite False 1 0)), ([0x212A], JNum (Finite False 2 0))])
     = Inr (ascii_bytes ''{"K":1,"K":1}'') \<and>
   canonicalizeBytes ascii_platform (ascii_bytes ''{"K":1,"K":1}'') = Inr (ascii_bytes ''{"K":1}'') \<and>
   ascii_bytes ''{"K":1}'' \<noteq> ascii_bytes ''{"K":1,"K":1}'' \<and>
   validateIntegrity ascii_platform (ascii_bytes ''{"K":1,"K":1}'') = False\<close>
proof -
  have b: \<open>canonicalizeBytes ascii_platform (ascii_bytes ''{"K":1,"K":1}'') = Inr (ascii_bytes ''{"K":1}'')\<close>
    by (simp add: canonicalizeBytes_def decode_K1 parse_K1 canonical_K del: One_nat_def)
  have v: \<open>validateIntegrity ascii_platform (ascii_bytes ''{"K":1,"K":1}'') = False\<close>
    by (simp add: validateIntegrity_def b) (simp add: ascii_bytes_def)
  have c: \<open>canonicalize ascii_platform
      (JObj [(js ''K'', JNum (Finite False 1 0)), ([0x212A], JNum (Finite False 2 0))])
     = Inr (ascii_bytes ''{"K":1,"K":1}'')\<close>
    by (simp add: canonicalize_def canonicalizeToString_def collide_K1 encode_K1 del: One_nat_def)
  have n: \<open>ascii_bytes ''{"K":1}'' \<noteq> ascii_bytes ''{"K":1,"K":1}''\<close>
    by (simp add: ascii_bytes_def)
  from b v c n show ?thesis by blast
qed

section \<open>Properties of the integrity check\<close>

lemma bytes_equal_from_drop:
  "length jsonBytes = length canonical \<Longrightarrow>
   bytes_equal_from i jsonBytes canonical = (drop i jsonBytes = drop i canonical)"
proof (induction i jsonBytes canonical rule: bytes_equal_from.induct)
  case (1 i jsonBytes canonical)
  show ?case
  proof (cases "i < length jsonBytes")
    case True
    with 1(2) have d: "drop i jsonBytes = jsonBytes ! i # drop (Suc i) jsonBytes"
      "drop i canonical = canonical ! i # drop (Suc i) canonical"
      by (simp_all add: Cons_nth_drop_Suc)
    show ?thesis
    proof (cases "jsonBytes ! i = canonical ! i")
      case same: True
      with True 1 d show ?thesis
        by (simp add: bytes_equal_from.simps [of i])
    next
      case False
      with True d show ?thesis
        by (simp add: bytes_equal_from.simps [of i])
    qed
  next
    case False
    with 1(2) show ?thesis
      by (simp add: bytes_equal_from.simps [of i])
  qed
qed

lemma canonicalizeBytes_K: \<open>canonicalizeBytes ascii_platform (ascii_bytes ''{"K":1}'') = Inr (ascii_bytes ''{"K":1}'')\<close>
proof -
  have d: \<open>TextDecoder_decode (ascii_bytes ''{"K":1}'') = js ''{"K":1}''\<close>
    by (simp add: TextDecoder_decode_def ascii_bytes_def js_def utf8_initial_def utf8_first_def
        strip_bom_def utf16_units_def)
  have t: \<open>tokenize ascii_platform (js ''{"K":1}'') =
      Some [LBrace, TStr (js ''K''), Colon, TNum (Finite False 1 0), RBrace]\<close>
    by (simp add: js_def tokenize.simps(2) is_whitespace_def dquote_def backslash_def prepend_def
        is_digit_def lex_number_def lex_fraction_def lex_exponent_def digits_value_def)
  have p: \<open>JSON_parse ascii_platform (js ''{"K":1}'') = Inr (JObj [(js ''K'', JNum (Finite False 1 0))])\<close>
    by (simp add: JSON_parse_def t step_def begin_value_def begin_member_def close_object_def
        scalar_token_def own_property_order_def is_array_index_def)
  show ?thesis
    by (simp add: canonicalizeBytes_def d p canonical_K del: One_nat_def)
qed

lemma canonicalizeBytes_truncated: \<open>canonicalizeBytes ascii_platform (ascii_bytes ''{"K":'') = Inl ParseError\<close>
proof -
  have d: \<open>TextDecoder_decode (ascii_bytes ''{"K":'') = js ''{"K":''\<close>
    by (simp add: TextDecoder_decode_def ascii_bytes_def js_def utf8_initial_def utf8_first_def
        strip_bom_def utf16_units_def)
  have t: \<open>tokenize ascii_platform (js ''{"K":'') = Some [LBrace, TStr (js ''K''), Colon]\<close>
    by (simp add: js_def tokenize.simps(2) is_whitespace_def dquote_def backslash_def prepend_def
        is_digit_def)
  have p: \<open>JSON_parse ascii_platform (js ''{"K":'') = Inl ParseError\<close>
    by (simp add: JSON_parse_def t step_def begin_value_def begin_member_def)
  show ?thesis
    by (simp add: canonicalizeBytes_def d p)
qed

lemma canonicalizeBytes_spaced: \<open>canonicalizeBytes ascii_platform (ascii_bytes ''{"K": 1}'') = Inr (ascii_bytes ''{"K":1}'')\<close>
proof -
  have d: \<open>TextDecoder_decode (ascii_bytes ''{"K": 1}'') = js ''{"K": 1}''\<close>
    by (simp add: TextDecoder_decode_def ascii_bytes_def js_def utf8_initial_def utf8_first_def
        strip_bom_def utf16_units_def)
  have t: \<open>tokenize ascii_platform (js ''{"K": 1}'') =
      Some [LBrace, TStr (js ''K''), Colon, TNum (Finite False 1 0), RBrace]\<close>
    by (simp add: js_def tokenize.simps(2) is_whitespace_def dquote_def backslash_def prepend_def
        is_digit_def lex_number_def lex_fraction_def lex_exponent_def digits_value_def)
  have p: \<open>JSON_parse ascii_platform (js ''{"K": 1}'') = Inr (JObj [(js ''K'', JNum (Finite False 1 0))])\<close>
    by (simp add: JSON_parse_def t step_def begin_value_def begin_member_def close_object_def
        scalar_token_def own_property_order_def is_array_index_def)
  show ?thesis
    by (simp add: canonicalizeBytes_def d p canonical_K del: One_nat_def)
qed

text \<open>
  C2. \<open>validateIntegrity\<close> returns a boolean on every byte sequence: it returns
  \<open>true\<close> exactly when \<open>canonicalizeBytes\<close> succeeds with the very same bytes, and an
  exception of the decoding, parsing or canonicalization inside it is caught and gives
  \<open>false\<close>.
\<close>

theorem validateIntegrity_iff:
  "validateIntegrity P jsonBytes = (canonicalizeBytes P jsonBytes = Inr jsonBytes) \<and>
   (canonicalizeBytes P jsonBytes = Inl e \<longrightarrow> validateIntegrity P jsonBytes = False)"
proof (cases "canonicalizeBytes P jsonBytes")
  case (Inl e)
  then show ?thesis by (simp add: validateIntegrity_def)
next
  case (Inr canonical)
  show ?thesis
  proof (cases "length jsonBytes = length canonical")
    case True
    with Inr bytes_equal_from_drop [OF True, of 0] show ?thesis
      by (auto simp: validateIntegrity_def)
  next
    case False
    with Inr show ?thesis
      by (auto simp: validateIntegrity_def)
  qed
qed

theorem validateIntegrity_iff_witness:
  \<open>canonicalizeBytes ascii_platform (ascii_bytes ''{"K":'') = Inl ParseError \<and>
   validateIntegrity ascii_platform (ascii_bytes ''{"K":'') = False \<and>
   validateIntegrity ascii_platform (ascii_bytes ''{"K":1}'') = True \<and>
   validateIntegrity ascii_platform (ascii_bytes ''{"K": 1}'') = False\<close>
proof -
  from validateIntegrity_iff [of ascii_platform \<open>ascii_bytes ''{"K":''\<close> ParseError]
    canonicalizeBytes_truncated
  have a: \<open>validateIntegrity ascii_platform (ascii_bytes ''{"K":'') = False\<close>
    by blast
  from validateIntegrity_iff [of ascii_platform \<open>ascii_bytes ''{"K":1}''\<close> ParseError]
    canonicalizeBytes_K
  have b: \<open>validateIntegrity ascii_platform (ascii_bytes ''{"K":1}'') = True\<close>
    by simp
  have \<open>ascii_bytes ''{"K":1}'' \<noteq> ascii_bytes ''{"K": 1}''\<close>
    by (simp add: ascii_bytes_def)
  with validateIntegrity_iff [of ascii_platform \<open>ascii_bytes ''{"K": 1}''\<close> ParseError]
    canonicalizeBytes_spaced
  have c: \<open>validateIntegrity ascii_platform (ascii_bytes ''{"K": 1}'') = False\<close>
    by simp
  from canonicalizeBytes_truncated a b c show ?thesis by blast
qed

end
